theory Spec2Isabelle
  imports Main "HOL-Library.Word"
begin

unbundle bit_operations_syntax

section \<open>The salvage scan of the block manager (src/block/block_slvg.c)\<close>

text \<open>
  The three functions of the file are \<^verbatim>\<open>__wt_block_salvage_start\<close>,
  \<^verbatim>\<open>__wt_block_salvage_end\<close> and \<^verbatim>\<open>__wt_block_salvage_next\<close>. They mutate a
  \<^verbatim>\<open>WT_BLOCK\<close> in place and call collaborators that live in other files
  (\<^verbatim>\<open>__wt_ftruncate\<close>, \<^verbatim>\<open>__wt_desc_init\<close>, \<^verbatim>\<open>__wt_buf_initsize\<close>, \<^verbatim>\<open>__wt_read\<close>,
  \<^verbatim>\<open>__wt_block_read\<close>, \<^verbatim>\<open>__wt_block_free\<close>, \<^verbatim>\<open>__wt_block_addr_to_buffer\<close>,
  \<^verbatim>\<open>__wt_block_discard\<close>). The model passes the block explicitly, takes what the
  collaborators answer as parameters, and records every collaborator call that touches
  the file or the store in a trace.
\<close>

subsection \<open>Data\<close>

text \<open>
  \<^verbatim>\<open>off_t\<close> is a signed 64-bit integer in C; its overflow is undefined, and no value of
  the scan comes near it for a file that exists, so offsets are mathematical integers.
  \<^verbatim>\<open>uint32_t\<close> and \<^verbatim>\<open>uint64_t\<close> are words; \<open>uint\<close> is the conversion \<^verbatim>\<open>(off_t)size\<close>.
\<close>

type_synonym off_t = int

text \<open>The fields of the \<^verbatim>\<open>WT_PAGE_DISK\<close> header that the scan reads.\<close>

record page_disk =
  dsk_size :: "32 word"
  dsk_cksum :: "32 word"
  dsk_lsn :: "64 word"

text \<open>
  One entry per call of a collaborator, in program order: the arguments and the
  return value (0 is success, as everywhere in this code base).
\<close>

datatype event =
    Ev_ftruncate off_t int
  | Ev_desc_init int
  | Ev_read off_t "32 word" int
  | Ev_block_read off_t "32 word" "32 word" int
  | Ev_block_free off_t "32 word" int
  | Ev_addr_to_buffer off_t "32 word" "32 word" int

text \<open>
  The \<^verbatim>\<open>WT_BLOCK\<close> fields the file uses. \<open>file_size\<close> is \<^verbatim>\<open>block->fh->file_size\<close>;
  \<open>freelist\<close> is the in-memory free-space state that \<^verbatim>\<open>__wt_block_free\<close> adds to and
  \<^verbatim>\<open>__wt_block_discard\<close> drops; \<open>trace\<close> is the record of collaborator calls.
\<close>

record block =
  allocsize :: "32 word"
  file_size :: off_t
  slvg_off :: off_t
  lsn :: "64 word"
  flags :: "32 word"
  freelist :: "(off_t \<times> 32 word) list"
  trace :: "event list"

text \<open>
  What is declared outside the file: the three constants and the answers of the
  collaborators. The scan does not write to the file, so an answer is a function of the
  call's arguments. \<open>read_mem e offset len\<close> is the header found in the buffer after
  \<^verbatim>\<open>__wt_read\<close> of \<open>len\<close> bytes at \<open>offset\<close>; \<open>addr_cookie\<close> is the byte string that
  \<^verbatim>\<open>__wt_block_addr_to_buffer\<close> writes for an (offset, size, checksum) triple.
\<close>

record env =
  WT_BLOCK_DESC_SECTOR :: off_t
  WT_BTREE_PAGE_SIZE_MAX :: "32 word"
  WT_BLOCK_OK :: "32 word"
  ftruncate_ret :: "off_t \<Rightarrow> int"
  desc_init_ret :: int
  buf_initsize_ret :: "32 word \<Rightarrow> int"
  read_ret :: "off_t \<Rightarrow> 32 word \<Rightarrow> int"
  read_mem :: "off_t \<Rightarrow> 32 word \<Rightarrow> page_disk"
  block_read_ret :: "off_t \<Rightarrow> 32 word \<Rightarrow> 32 word \<Rightarrow> int"
  block_free_ret :: "off_t \<Rightarrow> 32 word \<Rightarrow> int"
  addr_to_buffer_ret :: "off_t \<Rightarrow> 32 word \<Rightarrow> 32 word \<Rightarrow> int"
  addr_cookie :: "off_t \<Rightarrow> 32 word \<Rightarrow> 32 word \<Rightarrow> 8 word list"

subsection \<open>Collaborators\<close>

text \<open>
  Modelled from the spec: \<^verbatim>\<open>__wt_ftruncate\<close> is not in the file; the spec has
  \<^verbatim>\<open>truncate(file, new_length) -> () | IOError\<close> and a \<open>file_size\<close> that is refreshed
  after truncation. On success the file is \<open>len\<close> bytes long.
\<close>

definition wt_ftruncate :: "env \<Rightarrow> block \<Rightarrow> off_t \<Rightarrow> int \<times> block" where
  "wt_ftruncate e b len =
     (let r = ftruncate_ret e len in
      (r, b\<lparr>file_size := (if r = 0 then len else file_size b),
            trace := trace b @ [Ev_ftruncate len r]\<rparr>))"

text \<open>
  \<^verbatim>\<open>__wt_desc_init\<close> is not in the file and is a parameter: its return value is
  \<open>desc_init_ret\<close> (the spec has \<^verbatim>\<open>reinit_description_sector(file) -> () | IOError\<close>).
  It is handed the file handle only and touches no field of the block.
\<close>

definition wt_desc_init :: "env \<Rightarrow> block \<Rightarrow> int \<times> block" where
  "wt_desc_init e b =
     (let r = desc_init_ret e in (r, b\<lparr>trace := trace b @ [Ev_desc_init r]\<rparr>))"

text \<open>
  \<^verbatim>\<open>__wt_read\<close> is not in the file and is a parameter: its return value is
  \<open>read_ret\<close> and the header it leaves in the buffer is \<open>read_mem\<close> (the spec has
  \<^verbatim>\<open>read(file, offset, length) -> bytes | IOError\<close>).
\<close>

definition wt_read :: "env \<Rightarrow> block \<Rightarrow> off_t \<Rightarrow> 32 word \<Rightarrow> int \<times> block" where
  "wt_read e b offset len =
     (let r = read_ret e offset len in (r, b\<lparr>trace := trace b @ [Ev_read offset len r]\<rparr>))"

text \<open>
  \<^verbatim>\<open>__wt_block_read\<close> is not in the file and is a parameter: its return value is
  \<open>block_read_ret\<close> (the spec has \<^verbatim>\<open>verified_block_read(store, scratch, offset,
  declared_size, checksum) -> PageContent | VerificationError\<close>). The page it leaves in the
  buffer is not modelled.
\<close>

definition wt_block_read ::
  "env \<Rightarrow> block \<Rightarrow> off_t \<Rightarrow> 32 word \<Rightarrow> 32 word \<Rightarrow> int \<times> block" where
  "wt_block_read e b offset sz cksum =
     (let r = block_read_ret e offset sz cksum in
      (r, b\<lparr>trace := trace b @ [Ev_block_read offset sz cksum r]\<rparr>))"

text \<open>
  Modelled from the spec: \<^verbatim>\<open>__wt_block_free\<close> is not in the file; the spec has
  \<^verbatim>\<open>mark_region_free(store, offset, length) -> () | IOError\<close>. On success the region
  joins the free-space state of the store.
\<close>

definition wt_block_free :: "env \<Rightarrow> block \<Rightarrow> off_t \<Rightarrow> 32 word \<Rightarrow> int \<times> block" where
  "wt_block_free e b offset len =
     (let r = block_free_ret e offset len in
      (r, b\<lparr>freelist := (if r = 0 then freelist b @ [(offset, len)] else freelist b),
            trace := trace b @ [Ev_block_free offset len r]\<rparr>))"

text \<open>
  \<^verbatim>\<open>__wt_block_addr_to_buffer\<close> is not in the file and is a parameter: its return
  value is \<open>addr_to_buffer_ret\<close> and the bytes it writes are \<open>addr_cookie\<close> (the spec has
  \<^verbatim>\<open>encode_address_descriptor(offset, size, checksum) -> bytes\<close>). The source checks its
  return value, so the model lets it fail; no cookie is handed back then.
\<close>

definition wt_block_addr_to_buffer ::
  "env \<Rightarrow> block \<Rightarrow> off_t \<Rightarrow> 32 word \<Rightarrow> 32 word \<Rightarrow> int \<times> 8 word list option \<times> block" where
  "wt_block_addr_to_buffer e b offset sz cksum =
     (let r = addr_to_buffer_ret e offset sz cksum in
      (r, (if r = 0 then Some (addr_cookie e offset sz cksum) else None),
       b\<lparr>trace := trace b @ [Ev_addr_to_buffer offset sz cksum r]\<rparr>))"

text \<open>
  Modelled from the spec: \<^verbatim>\<open>__wt_block_discard\<close> is not in the file; the spec has
  \<^verbatim>\<open>discard_store_state(store) -> ()\<close>, which discards the in-memory free-space state.
\<close>

definition wt_block_discard :: "block \<Rightarrow> block" where
  "wt_block_discard b = b\<lparr>freelist := []\<rparr>"

subsection \<open>Salvage start\<close>

text \<open>
  C's \<^verbatim>\<open>/\<close> truncates towards zero. \<^verbatim>\<open>len / allocsize\<close> converts the \<^verbatim>\<open>uint32_t\<close> to
  \<^verbatim>\<open>off_t\<close>; a zero divisor has no defined result.
\<close>

definition off_div :: "off_t \<Rightarrow> off_t \<Rightarrow> off_t option" where
  "off_div a d = (if d = 0 then None else Some (sgn a * sgn d * (\<bar>a\<bar> div \<bar>d\<bar>)))"

text \<open>Lines 34 to 45: reset the description sector, then skip it.\<close>

definition salvage_start_tail :: "env \<Rightarrow> block \<Rightarrow> int \<times> block" where
  "salvage_start_tail e b =
     (case wt_desc_init e b of (r, b1) \<Rightarrow>
        if r \<noteq> 0 then (r, b1)
        else (0, b1\<lparr>slvg_off := WT_BLOCK_DESC_SECTOR e\<rparr>))"

text \<open>
  \<^verbatim>\<open>__wt_block_salvage_start\<close>. The result is \<open>None\<close> where the C divides by zero, and
  otherwise the return value with the block as the call leaves it.
\<close>

definition wt_block_salvage_start :: "env \<Rightarrow> block \<Rightarrow> (int \<times> block) option" where
  "wt_block_salvage_start e b =
     (if file_size b > WT_BLOCK_DESC_SECTOR e then
        (case off_div (file_size b - WT_BLOCK_DESC_SECTOR e) (uint (allocsize b)) of
           None \<Rightarrow> None
         | Some q \<Rightarrow>
             let len = q * uint (allocsize b) + WT_BLOCK_DESC_SECTOR e in
             if len \<noteq> file_size b then
               (case wt_ftruncate e b len of (r, b1) \<Rightarrow>
                  if r \<noteq> 0 then Some (r, b1) else Some (salvage_start_tail e b1))
             else Some (salvage_start_tail e b))
      else Some (salvage_start_tail e b))"

subsection \<open>Salvage end\<close>

text \<open>
  \<^verbatim>\<open>__wt_block_salvage_end\<close>. \<^verbatim>\<open>F_CLR(block, WT_BLOCK_OK)\<close> clears the bits of the
  mask in \<^verbatim>\<open>block->flags\<close>; \<open>success\<close> is a C \<^verbatim>\<open>int\<close>.
\<close>

definition wt_block_salvage_end :: "env \<Rightarrow> block \<Rightarrow> int \<Rightarrow> int \<times> block" where
  "wt_block_salvage_end e b success =
     (if success = 0
      then (0, wt_block_discard (b\<lparr>flags := flags b AND NOT (WT_BLOCK_OK e)\<rparr>))
      else (0, b))"

subsection \<open>Salvage next\<close>

text \<open>What a call of \<^verbatim>\<open>__wt_block_salvage_next\<close> hands back: the return value,
  \<^verbatim>\<open>*eofp\<close>, the address cookie when one was written, and the block.\<close>

record next_result =
  ret :: int
  eofp :: bool
  addr :: "8 word list option"
  blk :: block

text \<open>The test of lines 107 to 110, for a header of the given size at \<open>offset\<close>.\<close>

definition size_insane :: "env \<Rightarrow> block \<Rightarrow> off_t \<Rightarrow> 32 word \<Rightarrow> bool" where
  "size_insane e b offset sz \<longleftrightarrow>
     sz = 0 \<or>
     sz mod allocsize b \<noteq> 0 \<or>
     sz > WT_BTREE_PAGE_SIZE_MAX e \<or>
     offset + uint sz > file_size b"

text \<open>
  The code at the label \<^verbatim>\<open>skip\<close>, lines 136 to 146: free one allocation unit and move
  the cursor past it.
\<close>

definition skip :: "env \<Rightarrow> block \<Rightarrow> off_t \<Rightarrow> int \<times> block" where
  "skip e b offset =
     (case wt_block_free e b offset (allocsize b) of (r, b1) \<Rightarrow>
        if r \<noteq> 0 then (r, b1)
        else (0, b1\<lparr>slvg_off := offset + uint (allocsize b)\<rparr>))"

text \<open>Lines 126 and 127.\<close>

definition lsn_update :: "block \<Rightarrow> page_disk \<Rightarrow> block" where
  "lsn_update b dsk = (if lsn b < dsk_lsn dsk then b\<lparr>lsn := dsk_lsn dsk\<rparr> else b)"

text \<open>Lines 154 to 162, once the loop has left with a valid block.\<close>

definition return_page :: "env \<Rightarrow> block \<Rightarrow> off_t \<Rightarrow> 32 word \<Rightarrow> 32 word \<Rightarrow> next_result" where
  "return_page e b offset sz cksum =
     (case wt_block_addr_to_buffer e b offset sz cksum of (r, a, b1) \<Rightarrow>
        if r \<noteq> 0 then \<lparr>ret = r, eofp = False, addr = a, blk = b1\<rparr>
        else \<lparr>ret = 0, eofp = False, addr = a,
              blk = b1\<lparr>slvg_off := offset + uint sz\<rparr>\<rparr>)"

text \<open>
  The loop of lines 88 to 152 followed by the return of the page. The loop has no
  bound of its own, so not returning is the value \<open>None\<close>; so is the remainder
  \<^verbatim>\<open>size % allocsize\<close> with a zero \<^verbatim>\<open>allocsize\<close>, which C leaves undefined (the test
  \<^verbatim>\<open>size == 0\<close> comes first and short-cuts it).
\<close>

partial_function (option) salvage_scan :: "env \<Rightarrow> block \<Rightarrow> off_t \<Rightarrow> next_result option" where
  "salvage_scan e b offset =
     (if offset \<ge> file_size b then Some \<lparr>ret = 0, eofp = True, addr = None, blk = b\<rparr>
      else
        (case wt_read e b offset (allocsize b) of (r, b1) \<Rightarrow>
           if r \<noteq> 0 then Some \<lparr>ret = r, eofp = False, addr = None, blk = b1\<rparr>
           else
             let dsk = read_mem e offset (allocsize b);
                 sz = dsk_size dsk;
                 cksum = dsk_cksum dsk
             in
               if sz \<noteq> 0 \<and> allocsize b = 0 then None
               else if size_insane e b offset sz then
                 (case skip e b1 offset of (r, b2) \<Rightarrow>
                    if r \<noteq> 0 then Some \<lparr>ret = r, eofp = False, addr = None, blk = b2\<rparr>
                    else salvage_scan e b2 (offset + uint (allocsize b)))
               else
                 (case wt_block_read e (lsn_update b1 dsk) offset sz cksum of (r, b2) \<Rightarrow>
                    if r \<noteq> 0 then
                      (case skip e b2 offset of (r, b3) \<Rightarrow>
                         if r \<noteq> 0 then Some \<lparr>ret = r, eofp = False, addr = None, blk = b3\<rparr>
                         else salvage_scan e b3 (offset + uint (allocsize b)))
                    else Some (return_page e b2 offset sz cksum))))"

declare salvage_scan.simps [code]

text \<open>
  \<^verbatim>\<open>__wt_block_salvage_next\<close>: \<^verbatim>\<open>*eofp = 0\<close>, size the scratch buffer, then scan from
  \<^verbatim>\<open>block->slvg_off\<close>.
\<close>

definition wt_block_salvage_next :: "env \<Rightarrow> block \<Rightarrow> next_result option" where
  "wt_block_salvage_next e b =
     (let r = buf_initsize_ret e (allocsize b) in
      if r \<noteq> 0 then Some \<lparr>ret = r, eofp = False, addr = None, blk = b\<rparr>
      else salvage_scan e b (slvg_off b))"

subsection \<open>Probes, classified ranges and the caller\<close>

text \<open>
  The block with which a probe at \<open>offset\<close> reaches the label \<^verbatim>\<open>skip\<close>: after the
  header read when the size is insane, after the failed \<^verbatim>\<open>__wt_block_read\<close> otherwise.
\<close>

definition probe_garbage :: "env \<Rightarrow> block \<Rightarrow> off_t \<Rightarrow> block \<Rightarrow> bool" where
  "probe_garbage e b offset bs \<longleftrightarrow>
     (let b1 = snd (wt_read e b offset (allocsize b));
          dsk = read_mem e offset (allocsize b);
          sz = dsk_size dsk;
          cksum = dsk_cksum dsk
      in (sz = 0 \<or> allocsize b \<noteq> 0) \<and>
         (if size_insane e b offset sz then bs = b1
          else block_read_ret e offset sz cksum \<noteq> 0 \<and>
               bs = snd (wt_block_read e (lsn_update b1 dsk) offset sz cksum)))"

text \<open>
  What the call returns from a probe at \<open>offset\<close> whose header read and full read both
  succeeded: the loop is left at line 151 and the page is returned.
\<close>

definition probe_page :: "env \<Rightarrow> block \<Rightarrow> off_t \<Rightarrow> next_result" where
  "probe_page e b offset =
     (let b1 = snd (wt_read e b offset (allocsize b));
          dsk = read_mem e offset (allocsize b);
          sz = dsk_size dsk;
          cksum = dsk_cksum dsk;
          b2 = snd (wt_block_read e (lsn_update b1 dsk) offset sz cksum)
      in return_page e b2 offset sz cksum)"

text \<open>
  The byte range \<open>[lo, hi)\<close> that a collaborator call classifies: a successful
  \<^verbatim>\<open>__wt_block_free\<close> frees its range as garbage, and a successful
  \<^verbatim>\<open>__wt_block_addr_to_buffer\<close> is followed by the return of its page (line 156 to 162).
\<close>

fun classified :: "event \<Rightarrow> (off_t \<times> off_t) list" where
  "classified (Ev_block_free offset len r) = (if r = 0 then [(offset, offset + uint len)] else [])"
| "classified (Ev_addr_to_buffer offset sz cksum r) =
     (if r = 0 then [(offset, offset + uint sz)] else [])"
| "classified _ = []"

text \<open>The classified ranges of a trace, in program order.\<close>

definition ranges :: "event list \<Rightarrow> (off_t \<times> off_t) list" where
  "ranges evs = concat (map classified evs)"

text \<open>How many of the ranges contain the byte offset \<open>x\<close>.\<close>

definition times_classified :: "(off_t \<times> off_t) list \<Rightarrow> off_t \<Rightarrow> nat" where
  "times_classified rs x = length (filter (\<lambda>r. fst r \<le> x \<and> x < snd r) rs)"

text \<open>The ranges are non-empty and each starts where the one before ends, from \<open>s\<close> to \<open>t\<close>.\<close>

fun chain :: "off_t \<Rightarrow> (off_t \<times> off_t) list \<Rightarrow> off_t \<Rightarrow> bool" where
  "chain s [] t \<longleftrightarrow> s = t"
| "chain s (r # rs) t \<longleftrightarrow> fst r = s \<and> fst r < snd r \<and> chain (snd r) rs t"

text \<open>
  The caller of a salvage pass: \<open>n\<close> calls of \<^verbatim>\<open>__wt_block_salvage_next\<close> one after the
  other on the same block, whatever each returns; the results and the final block.
\<close>

fun salvage_calls :: "env \<Rightarrow> nat \<Rightarrow> block \<Rightarrow> (next_result list \<times> block) option" where
  "salvage_calls e 0 b = Some ([], b)"
| "salvage_calls e (Suc n) b =
     (case wt_block_salvage_next e b of
        None \<Rightarrow> None
      | Some r \<Rightarrow>
          (case salvage_calls e n (blk r) of
             None \<Rightarrow> None
           | Some (rs, b') \<Rightarrow> Some (r # rs, b')))"

text \<open>The ranges classified between two states of the block.\<close>

definition pass_ranges :: "block \<Rightarrow> block \<Rightarrow> (off_t \<times> off_t) list" where
  "pass_ranges b0 b' = ranges (drop (length (trace b0)) (trace b'))"

text \<open>
  The loop invariant on the cursor: it is at or past the end of the file, or a whole
  number of allocation units before it.
\<close>

definition aligned :: "block \<Rightarrow> bool" where
  "aligned b \<longleftrightarrow>
     file_size b \<le> slvg_off b \<or>
     (allocsize b \<noteq> 0 \<and> uint (allocsize b) dvd file_size b - slvg_off b)"

text \<open>
  A failed header read or a failed free, with the offset it was made at and the error
  it returned. (The truncation of the spec's list of infrastructure failures is called
  by the start only.)
\<close>

fun io_failure :: "event \<Rightarrow> (off_t \<times> int) option" where
  "io_failure (Ev_read offset len r) = (if r \<noteq> 0 then Some (offset, r) else None)"
| "io_failure (Ev_block_free offset len r) = (if r \<noteq> 0 then Some (offset, r) else None)"
| "io_failure _ = None"

text \<open>
  The LSN of a header that was read and passed the test of lines 107 to 110, whether or
  not the full read that follows succeeds; and all of them on a trace.
\<close>

fun probed_lsn :: "env \<Rightarrow> block \<Rightarrow> event \<Rightarrow> 64 word list" where
  "probed_lsn e b (Ev_read offset len r) =
     (if r = 0 \<and> \<not> size_insane e b offset (dsk_size (read_mem e offset len))
      then [dsk_lsn (read_mem e offset len)] else [])"
| "probed_lsn e b _ = []"

definition probed_lsns :: "env \<Rightarrow> block \<Rightarrow> event list \<Rightarrow> 64 word list" where
  "probed_lsns e b evs = concat (map (probed_lsn e b) evs)"

text \<open>
  The LSN of a page that was returned to the caller (the pages the spec calls valid);
  and all of them on a trace.
\<close>

fun returned_lsn :: "env \<Rightarrow> block \<Rightarrow> event \<Rightarrow> 64 word list" where
  "returned_lsn e b (Ev_addr_to_buffer offset sz cksum r) =
     (if r = 0 then [dsk_lsn (read_mem e offset (allocsize b))] else [])"
| "returned_lsn e b _ = []"

definition returned_lsns :: "env \<Rightarrow> block \<Rightarrow> event list \<Rightarrow> 64 word list" where
  "returned_lsns e b evs = concat (map (returned_lsn e b) evs)"

subsection \<open>A file to run the code on\<close>

text \<open>
  An allocation unit and a description sector of 512 bytes, and a file of 2600 bytes:
  a page of 1024 bytes at offset 512 (LSN 7), a unit at 1536 whose header is plausible
  (LSN 99) but whose checksum fails, a page of 512 bytes at 2048 (LSN 12), and 40
  trailing bytes. No collaborator fails.
\<close>

definition ex_env :: env where
  "ex_env = \<lparr>WT_BLOCK_DESC_SECTOR = 512, WT_BTREE_PAGE_SIZE_MAX = 536870912, WT_BLOCK_OK = 1,
     ftruncate_ret = (\<lambda>_. 0), desc_init_ret = 0, buf_initsize_ret = (\<lambda>_. 0),
     read_ret = (\<lambda>_ _. 0),
     read_mem = (\<lambda>off _. if off = 512 then \<lparr>dsk_size = 1024, dsk_cksum = 11, dsk_lsn = 7\<rparr>
                          else if off = 2048 then \<lparr>dsk_size = 512, dsk_cksum = 22, dsk_lsn = 12\<rparr>
                          else \<lparr>dsk_size = 512, dsk_cksum = 0, dsk_lsn = 99\<rparr>),
     block_read_ret = (\<lambda>off _ _. if off = 512 \<or> off = 2048 then 0 else 1),
     block_free_ret = (\<lambda>_ _. 0),
     addr_to_buffer_ret = (\<lambda>_ _ _. 0),
     addr_cookie = (\<lambda>off sz ck. [word_of_int (off div 512), ucast (sz div 512), ucast ck])\<rparr>"

definition ex_block :: block where
  "ex_block = \<lparr>allocsize = 512, file_size = 2600, slvg_off = 0, lsn = 3, flags = 1,
     freelist = [], trace = []\<rparr>"

text \<open>The block after \<^verbatim>\<open>__wt_block_salvage_start\<close> on that file.\<close>

definition ex_b0 :: block where
  "ex_b0 = \<lparr>allocsize = 512, file_size = 2560, slvg_off = 512, lsn = 3, flags = 1,
     freelist = [], trace = [Ev_ftruncate 2560 0, Ev_desc_init 0]\<rparr>"

text \<open>The block after the first and after the second \<^verbatim>\<open>__wt_block_salvage_next\<close>.\<close>

definition ex_b1 :: block where
  "ex_b1 = \<lparr>allocsize = 512, file_size = 2560, slvg_off = 1536, lsn = 7, flags = 1,
     freelist = [],
     trace = [Ev_ftruncate 2560 0, Ev_desc_init 0,
              Ev_read 512 512 0, Ev_block_read 512 1024 11 0, Ev_addr_to_buffer 512 1024 11 0]\<rparr>"

definition ex_b2 :: block where
  "ex_b2 = \<lparr>allocsize = 512, file_size = 2560, slvg_off = 2560, lsn = 99, flags = 1,
     freelist = [(1536, 512)],
     trace = [Ev_ftruncate 2560 0, Ev_desc_init 0,
              Ev_read 512 512 0, Ev_block_read 512 1024 11 0, Ev_addr_to_buffer 512 1024 11 0,
              Ev_read 1536 512 0, Ev_block_read 1536 512 0 1, Ev_block_free 1536 512 0,
              Ev_read 2048 512 0, Ev_block_read 2048 512 22 0, Ev_addr_to_buffer 2048 512 22 0]\<rparr>"

text \<open>A file shorter than the description sector.\<close>

definition ex_small :: block where
  "ex_small = \<lparr>allocsize = 512, file_size = 300, slvg_off = 0, lsn = 3, flags = 1,
     freelist = [], trace = []\<rparr>"

text \<open>
  A file of one sector and one unit: the header at 512 declares 1024 bytes, which runs
  past the end of the file. The block before the start, after it, and after one
  \<^verbatim>\<open>__wt_block_salvage_next\<close>.
\<close>

definition ex_gblock :: block where
  "ex_gblock = \<lparr>allocsize = 512, file_size = 1024, slvg_off = 0, lsn = 3, flags = 1,
     freelist = [], trace = []\<rparr>"

definition ex_g0 :: block where
  "ex_g0 = \<lparr>allocsize = 512, file_size = 1024, slvg_off = 512, lsn = 3, flags = 1,
     freelist = [], trace = [Ev_desc_init 0]\<rparr>"

definition ex_g1 :: block where
  "ex_g1 = \<lparr>allocsize = 512, file_size = 1024, slvg_off = 1024, lsn = 3, flags = 1,
     freelist = [(512, 512)],
     trace = [Ev_desc_init 0, Ev_read 512 512 0, Ev_block_free 512 512 0]\<rparr>"

text \<open>
  The same file with a header read that fails with error 5 at offset 2048, and the block
  after the second \<^verbatim>\<open>__wt_block_salvage_next\<close> then.
\<close>

definition ex_env_fail :: env where
  "ex_env_fail = ex_env\<lparr>read_ret := (\<lambda>off _. if off = 2048 then 5 else 0)\<rparr>"

definition ex_f :: block where
  "ex_f = \<lparr>allocsize = 512, file_size = 2560, slvg_off = 2048, lsn = 99, flags = 1,
     freelist = [(1536, 512)],
     trace = [Ev_ftruncate 2560 0, Ev_desc_init 0,
              Ev_read 512 512 0, Ev_block_read 512 1024 11 0, Ev_addr_to_buffer 512 1024 11 0,
              Ev_read 1536 512 0, Ev_block_read 1536 512 0 1, Ev_block_free 1536 512 0,
              Ev_read 2048 512 5]\<rparr>"

section \<open>Properties\<close>

subsection \<open>Runs on the example file\<close>

lemma ex_start: "wt_block_salvage_start ex_env ex_block = Some (0, ex_b0)"
  by code_simp

lemma ex_next1:
  "wt_block_salvage_next ex_env ex_b0 =
     Some \<lparr>ret = 0, eofp = False, addr = Some [1, 2, 11], blk = ex_b1\<rparr>"
  by code_simp

lemma ex_next2:
  "wt_block_salvage_next ex_env ex_b1 =
     Some \<lparr>ret = 0, eofp = False, addr = Some [4, 1, 22], blk = ex_b2\<rparr>"
  by code_simp

lemma ex_next3:
  "wt_block_salvage_next ex_env ex_b2 =
     Some \<lparr>ret = 0, eofp = True, addr = None, blk = ex_b2\<rparr>"
  by code_simp

lemma ex_calls:
  "salvage_calls ex_env 3 ex_b0 =
     Some ([\<lparr>ret = 0, eofp = False, addr = Some [1, 2, 11], blk = ex_b1\<rparr>,
            \<lparr>ret = 0, eofp = False, addr = Some [4, 1, 22], blk = ex_b2\<rparr>,
            \<lparr>ret = 0, eofp = True, addr = None, blk = ex_b2\<rparr>], ex_b2)"
  by (simp add: numeral_3_eq_3 ex_next1 ex_next2 ex_next3)

lemma ex_pass_ranges: "pass_ranges ex_b0 ex_b2 = [(512, 1536), (1536, 2048), (2048, 2560)]"
  by (simp add: pass_ranges_def ranges_def ex_b0_def ex_b2_def)


lemma ex_gstart: "wt_block_salvage_start ex_env ex_gblock = Some (0, ex_g0)"
  by code_simp

lemma ex_gnext:
  "wt_block_salvage_next ex_env ex_g0 = Some \<lparr>ret = 0, eofp = True, addr = None, blk = ex_g1\<rparr>"
  by code_simp

lemma ex_fnext:
  "wt_block_salvage_next ex_env_fail ex_b1 =
     Some \<lparr>ret = 5, eofp = False, addr = None, blk = ex_f\<rparr>"
  by code_simp

lemma ex_scan_1536:
  "salvage_scan ex_env ex_b1 1536 =
     Some \<lparr>ret = 0, eofp = False, addr = Some [4, 1, 22], blk = ex_b2\<rparr>"
  by code_simp

subsection \<open>Induction over the scan loop\<close>

text \<open>
  One case per way through the loop body: end of file, a failed header read, a failed
  free at the label \<^verbatim>\<open>skip\<close>, a skipped unit (the only way round the loop), and a
  verified page.
\<close>

lemmas salvage_scan_raw = salvage_scan.raw_induct [rotated 1, consumes 1, case_names step]

lemma salvage_scan_induct [consumes 1, case_names eof read_fail free_fail skipped page]:
  assumes run: "salvage_scan e b offset = Some res"
    and eof: "\<And>e b offset. file_size b \<le> offset \<Longrightarrow>
                P e b offset \<lparr>ret = 0, eofp = True, addr = None, blk = b\<rparr>"
    and read_fail: "\<And>e b offset. offset < file_size b \<Longrightarrow>
                read_ret e offset (allocsize b) \<noteq> 0 \<Longrightarrow>
                P e b offset \<lparr>ret = read_ret e offset (allocsize b), eofp = False, addr = None,
                             blk = snd (wt_read e b offset (allocsize b))\<rparr>"
    and free_fail: "\<And>e b offset bs. offset < file_size b \<Longrightarrow>
                read_ret e offset (allocsize b) = 0 \<Longrightarrow>
                probe_garbage e b offset bs \<Longrightarrow>
                block_free_ret e offset (allocsize b) \<noteq> 0 \<Longrightarrow>
                P e b offset \<lparr>ret = block_free_ret e offset (allocsize b), eofp = False,
                             addr = None, blk = snd (wt_block_free e bs offset (allocsize b))\<rparr>"
    and skipped: "\<And>e b offset bs res. offset < file_size b \<Longrightarrow>
                read_ret e offset (allocsize b) = 0 \<Longrightarrow>
                probe_garbage e b offset bs \<Longrightarrow>
                block_free_ret e offset (allocsize b) = 0 \<Longrightarrow>
                P e (snd (skip e bs offset)) (offset + uint (allocsize b)) res \<Longrightarrow>
                P e b offset res"
    and page: "\<And>e b offset. offset < file_size b \<Longrightarrow>
                read_ret e offset (allocsize b) = 0 \<Longrightarrow>
                allocsize b \<noteq> 0 \<Longrightarrow>
                \<not> size_insane e b offset (dsk_size (read_mem e offset (allocsize b))) \<Longrightarrow>
                block_read_ret e offset (dsk_size (read_mem e offset (allocsize b)))
                   (dsk_cksum (read_mem e offset (allocsize b))) = 0 \<Longrightarrow>
                P e b offset (probe_page e b offset)"
  shows "P e b offset res"
  using run
proof (induction e b offset res rule: salvage_scan_raw)
  case (step f e b offset res)
  define A where "A = allocsize b"
  define dsk where "dsk = read_mem e offset A"
  define b1 where "b1 = snd (wt_read e b offset A)"
  define b2 where "b2 = snd (wt_block_read e (lsn_update b1 dsk) offset (dsk_size dsk) (dsk_cksum dsk))"
  note body = step(2) [folded A_def, folded dsk_def]

  show ?case
  proof (cases "file_size b \<le> offset")
    case True
    with body have "res = \<lparr>ret = 0, eofp = True, addr = None, blk = b\<rparr>" by simp
    with eof [OF True] show ?thesis by simp
  next
    case nf: False
    then have lt: "offset < file_size b" by simp
    show ?thesis
    proof (cases "read_ret e offset A = 0")
      case False
      with nf body have "res = \<lparr>ret = read_ret e offset A, eofp = False, addr = None,
                             blk = snd (wt_read e b offset A)\<rparr>"
        by (simp add: wt_read_def Let_def)
      with read_fail [OF lt False [unfolded A_def]] show ?thesis by (simp add: A_def)
    next
      case rd: True
      have rd1: "wt_read e b offset A = (0, b1)"
        using rd by (simp add: wt_read_def b1_def Let_def)
      show ?thesis
      proof (cases "dsk_size dsk \<noteq> 0 \<and> A = 0")
        case True
        with nf body rd1 show ?thesis by (simp add: Let_def)
      next
        case ok: False
        have g: "probe_garbage e b offset bs" if "if size_insane e b offset (dsk_size dsk) then bs = b1
            else block_read_ret e offset (dsk_size dsk) (dsk_cksum dsk) \<noteq> 0 \<and> bs = b2" for bs
          using that ok unfolding probe_garbage_def Let_def A_def [symmetric] dsk_def [symmetric]
            b1_def [symmetric] b2_def [symmetric] by auto
        have sk: "P e b offset res"
          if gb: "probe_garbage e b offset bs"
            and r: "(case skip e bs offset of (r, b') \<Rightarrow>
                  if r \<noteq> 0 then Some \<lparr>ret = r, eofp = False, addr = None, blk = b'\<rparr>
                  else f e b' (offset + uint A)) = Some res"
            and al: "allocsize bs = A" for bs
        proof (cases "block_free_ret e offset A = 0")
          case False
          with r al have "res = \<lparr>ret = block_free_ret e offset A, eofp = False, addr = None,
                 blk = snd (wt_block_free e bs offset A)\<rparr>"
            by (simp add: skip_def wt_block_free_def Let_def)
          with free_fail [OF lt rd [unfolded A_def] gb False [unfolded A_def]] show ?thesis
            by (simp add: A_def)
        next
          case True
          with r al have "f e (snd (skip e bs offset)) (offset + uint A) = Some res"
            by (simp add: skip_def wt_block_free_def Let_def)
          from step(1) [OF this] skipped [OF lt rd [unfolded A_def] gb True [unfolded A_def]]
          show ?thesis by (simp add: A_def)
        qed
        show ?thesis
        proof (cases "size_insane e b offset (dsk_size dsk)")
          case True
          have "allocsize b1 = A" by (simp add: b1_def wt_read_def A_def Let_def)
          moreover from True nf rd1 ok body
          have "(case skip e b1 offset of (r, b') \<Rightarrow>
                  if r \<noteq> 0 then Some \<lparr>ret = r, eofp = False, addr = None, blk = b'\<rparr>
                  else f e b' (offset + uint A)) = Some res"
            by (auto simp: Let_def)
          ultimately show ?thesis using sk [of b1] g [of b1] True by simp
        next
          case sane: False
          have br: "wt_block_read e (lsn_update b1 dsk) offset (dsk_size dsk) (dsk_cksum dsk) =
                (block_read_ret e offset (dsk_size dsk) (dsk_cksum dsk), b2)"
            by (simp add: b2_def wt_block_read_def Let_def)
          show ?thesis
          proof (cases "block_read_ret e offset (dsk_size dsk) (dsk_cksum dsk) = 0")
            case False
            have "allocsize b2 = A"
              by (simp add: b2_def b1_def wt_read_def wt_block_read_def lsn_update_def A_def Let_def)
            moreover from False sane nf rd1 ok body br
            have "(case skip e b2 offset of (r, b') \<Rightarrow>
                  if r \<noteq> 0 then Some \<lparr>ret = r, eofp = False, addr = None, blk = b'\<rparr>
                  else f e b' (offset + uint A)) = Some res"
              by (auto simp: Let_def)
            ultimately show ?thesis using sk [of b2] g [of b2] sane False by simp
          next
            case True
            with sane nf rd1 ok body br
            have "res = return_page e b2 offset (dsk_size dsk) (dsk_cksum dsk)"
              by (auto simp: Let_def)
            moreover from ok sane have "A \<noteq> 0"
              by (auto simp: size_insane_def)
            ultimately show ?thesis
              using page [OF lt rd [unfolded A_def] _ sane [unfolded dsk_def A_def]
                  True [unfolded dsk_def A_def]]
              by (simp add: A_def dsk_def b2_def b1_def probe_page_def Let_def)
          qed
        qed
      qed
    qed
  qed
qed

subsection \<open>Salvage start\<close>

lemma off_div_Some:
  "0 < a \<Longrightarrow> 0 \<le> d \<Longrightarrow> off_div a d = Some q \<Longrightarrow> d \<noteq> 0 \<and> q = a div d"
  by (auto simp: off_div_def split: if_splits)

text \<open>
  C3. When \<^verbatim>\<open>__wt_block_salvage_start\<close> returns 0 on a file of \<open>F\<close> bytes with
  allocation unit \<open>A\<close>, the file size is the sector size plus \<open>A * floor((F - sector) / A)\<close>
  if \<open>F\<close> exceeds the sector size, and \<open>F\<close> otherwise. (\<open>div\<close> on \<open>int\<close> is the floor.)
\<close>

theorem salvage_start_truncates:
  assumes "wt_block_salvage_start e b = Some (0, b')"
  shows "file_size b' =
           (if file_size b > WT_BLOCK_DESC_SECTOR e
            then WT_BLOCK_DESC_SECTOR e +
                 uint (allocsize b) * ((file_size b - WT_BLOCK_DESC_SECTOR e) div uint (allocsize b))
            else file_size b)"
proof (cases "file_size b > WT_BLOCK_DESC_SECTOR e")
  case False
  with assms show ?thesis
    by (auto simp: wt_block_salvage_start_def salvage_start_tail_def wt_desc_init_def Let_def
        split: if_splits)
next
  case True
  then obtain q where q: "off_div (file_size b - WT_BLOCK_DESC_SECTOR e) (uint (allocsize b)) = Some q"
    using assms by (auto simp: wt_block_salvage_start_def split: option.splits)
  from True have "q = (file_size b - WT_BLOCK_DESC_SECTOR e) div uint (allocsize b)"
    using off_div_Some [OF _ _ q] by simp
  with assms True q show ?thesis
    by (auto simp: wt_block_salvage_start_def salvage_start_tail_def wt_desc_init_def
        wt_ftruncate_def Let_def mult.commute split: if_splits)
qed

theorem salvage_start_truncates_witness:
  "wt_block_salvage_start ex_env ex_block = Some (0, ex_b0) \<and>
   file_size ex_block = 2600 \<and> file_size ex_b0 = 512 + 512 * ((2600 - 512) div 512)"
proof -
  have "file_size ex_b0 = 512 + 512 * ((2600 - 512) div 512)"
    using salvage_start_truncates [OF ex_start] by (simp add: ex_env_def ex_block_def)
  moreover have "file_size ex_block = 2600"
    by (simp add: ex_block_def)
  ultimately show ?thesis
    using ex_start by simp
qed

subsection \<open>The cursor and the classified ranges\<close>

lemma ranges_simps [simp]:
  "ranges [] = []"
  "ranges (ev # evs) = classified ev @ ranges evs"
  "ranges (xs @ ys) = ranges xs @ ranges ys"
  by (simp_all add: ranges_def)

lemma chain_append:
  "chain s (xs @ ys) t \<longleftrightarrow> (\<exists>m. chain s xs m \<and> chain m ys t)"
  by (induction xs arbitrary: s) auto

lemma chain_le: "chain s rs t \<Longrightarrow> s \<le> t"
  by (induction rs arbitrary: s) fastforce+

lemma uint_pos: "w \<noteq> 0 \<Longrightarrow> 0 < uint w"
  using uint_0_iff [of w] uint_ge_0 [of w] by linarith

lemma dvd_step: "(d::int) dvd F - x \<Longrightarrow> d dvd s \<Longrightarrow> d dvd F - (x + s)"
proof -
  assume "d dvd F - x" "d dvd s"
  then have "d dvd (F - x) - s" by (rule dvd_diff)
  then show ?thesis by (simp add: algebra_simps)
qed

lemma uint_mod_0: "w mod a = 0 \<Longrightarrow> uint a dvd uint w"
  using uint_mod [of w a] by (simp add: dvd_eq_mod_eq_0)

lemma chain_count:
  "chain s rs t \<Longrightarrow> times_classified rs x = (if s \<le> x \<and> x < t then 1 else 0)"
proof (induction rs arbitrary: s)
  case Nil
  then show ?case by (simp add: times_classified_def)
next
  case (Cons r rs)
  from Cons.prems have c: "chain (snd r) rs t" and r: "fst r = s" "fst r < snd r" by simp_all
  from chain_le [OF c] Cons.IH [OF c] r show ?case
    by (auto simp: times_classified_def)
qed

lemma skip_ok:
  "block_free_ret e offset (allocsize bs) = 0 \<Longrightarrow>
   snd (skip e bs offset) =
     bs\<lparr>freelist := freelist bs @ [(offset, allocsize bs)],
        trace := trace bs @ [Ev_block_free offset (allocsize bs) 0],
        slvg_off := offset + uint (allocsize bs)\<rparr>"
  by (simp add: skip_def wt_block_free_def Let_def)

lemma probe_garbage_frame:
  assumes "probe_garbage e b offset bs"
  shows "allocsize bs = allocsize b" "file_size bs = file_size b" "slvg_off bs = slvg_off b"
    "freelist bs = freelist b" "flags bs = flags b"
  using assms
  by (auto simp: probe_garbage_def Let_def wt_read_def wt_block_read_def lsn_update_def
      split: if_splits)

lemma probe_garbage_trace:
  assumes "probe_garbage e b offset bs" "read_ret e offset (allocsize b) = 0"
  shows "trace bs = trace b @ Ev_read offset (allocsize b) 0 #
           (if size_insane e b offset (dsk_size (read_mem e offset (allocsize b))) then []
            else [Ev_block_read offset (dsk_size (read_mem e offset (allocsize b)))
                    (dsk_cksum (read_mem e offset (allocsize b)))
                    (block_read_ret e offset (dsk_size (read_mem e offset (allocsize b)))
                    (dsk_cksum (read_mem e offset (allocsize b))))])"
  using assms
  by (auto simp: probe_garbage_def Let_def wt_read_def wt_block_read_def lsn_update_def
      split: if_splits)

lemma scan_chain:
  assumes "salvage_scan e b offset = Some res" "slvg_off b = offset" "aligned b"
  shows "\<exists>evs. trace (blk res) = trace b @ evs \<and>
           chain offset (ranges evs) (slvg_off (blk res)) \<and>
           file_size (blk res) = file_size b \<and> allocsize (blk res) = allocsize b \<and>
           aligned (blk res) \<and> (eofp res \<longrightarrow> file_size b \<le> slvg_off (blk res)) \<and>
           slvg_off (blk res) \<le> max offset (file_size b)"
  using assms
proof (induction rule: salvage_scan_induct)
  case (eof e b offset)
  then show ?case by simp
next
  case (read_fail e b offset)
  then show ?case by (simp add: wt_read_def Let_def aligned_def)
next
  case (free_fail e b offset bs)
  from probe_garbage_frame [OF free_fail(3)] probe_garbage_trace [OF free_fail(3,2)] free_fail
  show ?case by (simp add: wt_block_free_def Let_def aligned_def)
next
  case (skipped e b offset bs res)
  note fr = probe_garbage_frame [OF skipped(3)]
  note tr = probe_garbage_trace [OF skipped(3,2)]
  have sk: "snd (skip e bs offset) =
     bs\<lparr>freelist := freelist bs @ [(offset, allocsize b)],
        trace := trace bs @ [Ev_block_free offset (allocsize b) 0],
        slvg_off := offset + uint (allocsize b)\<rparr>"
    using skip_ok [of e offset bs] skipped(4) fr by simp
  from skipped(1,6,7) have A: "allocsize b \<noteq> 0" and dv: "uint (allocsize b) dvd file_size b - offset"
    by (auto simp: aligned_def)
  from A have Apos: "0 < uint (allocsize b)"
    by (rule uint_pos)
  from dv have dv': "uint (allocsize b) dvd file_size b - (offset + uint (allocsize b))"
    by (rule dvd_step) simp
  from dv skipped(1) Apos have le: "offset + uint (allocsize b) \<le> file_size b"
    using zdvd_imp_le [of "uint (allocsize b)" "file_size b - offset"] by simp
  have "slvg_off (snd (skip e bs offset)) = offset + uint (allocsize b)"
    and "aligned (snd (skip e bs offset))"
    using A dv' fr by (simp_all add: sk aligned_def)
  from skipped.IH [OF this] obtain evs where
    evs: "trace (blk res) = trace (snd (skip e bs offset)) @ evs"
      "chain (offset + uint (allocsize b)) (ranges evs) (slvg_off (blk res))"
      "file_size (blk res) = file_size b" "allocsize (blk res) = allocsize b"
      "aligned (blk res)" "eofp res \<longrightarrow> file_size b \<le> slvg_off (blk res)"
      "slvg_off (blk res) \<le> file_size b"
    using le fr by (auto simp: sk max_def)
  from evs Apos tr show ?case
    by (auto simp: sk)
next
  case (page e b offset)
  define sz where "sz = dsk_size (read_mem e offset (allocsize b))"
  from page(4) have "sz mod allocsize b = 0" "sz \<noteq> 0"
    and le: "offset + uint sz \<le> file_size b"
    by (simp_all add: size_insane_def sz_def [symmetric])
  then have dv: "uint (allocsize b) dvd uint sz" and pos: "0 < uint sz"
    by (simp_all add: uint_mod_0 uint_pos)
  from page(1,3,6,7) have "uint (allocsize b) dvd file_size b - offset"
    by (auto simp: aligned_def)
  then have "uint (allocsize b) dvd file_size b - (offset + uint sz)"
    using dv by (rule dvd_step)
  with page pos le show ?case
    by (auto simp: probe_page_def return_page_def wt_block_addr_to_buffer_def wt_block_read_def
        wt_read_def lsn_update_def Let_def aligned_def sz_def [symmetric])
qed


lemma chain_lower: "chain s rs t \<Longrightarrow> j < length rs \<Longrightarrow> s \<le> fst (rs ! j)"
proof (induction rs arbitrary: s j)
  case Nil
  then show ?case by simp
next
  case (Cons r rs)
  show ?case
  proof (cases j)
    case 0
    with Cons.prems show ?thesis by simp
  next
    case (Suc k)
    with Cons.prems have "snd r \<le> fst (rs ! k)"
      by (intro Cons.IH) simp_all
    with Cons.prems Suc show ?thesis by simp
  qed
qed

lemma chain_sorted:
  "chain s rs t \<Longrightarrow> i < j \<Longrightarrow> j < length rs \<Longrightarrow> snd (rs ! i) \<le> fst (rs ! j)"
proof (induction rs arbitrary: s i j)
  case Nil
  then show ?case by simp
next
  case (Cons r rs)
  from Cons.prems obtain k where j: "j = Suc k" by (cases j) auto
  from Cons.prems have c: "chain (snd r) rs t" by simp
  show ?case
  proof (cases i)
    case 0
    with j Cons.prems chain_lower [OF c, of k] show ?thesis by simp
  next
    case (Suc l)
    with j Cons.prems Cons.IH [OF c, of l k] show ?thesis by simp
  qed
qed

lemma chain_nonempty: "chain s rs t \<Longrightarrow> r \<in> set rs \<Longrightarrow> fst r < snd r"
  by (induction rs arbitrary: s) auto

lemma next_chain:
  assumes "wt_block_salvage_next e b = Some res" "aligned b"
  shows "\<exists>evs. trace (blk res) = trace b @ evs \<and>
           chain (slvg_off b) (ranges evs) (slvg_off (blk res)) \<and>
           file_size (blk res) = file_size b \<and> allocsize (blk res) = allocsize b \<and>
           aligned (blk res) \<and> (eofp res \<longrightarrow> file_size b \<le> slvg_off (blk res)) \<and>
           slvg_off (blk res) \<le> max (slvg_off b) (file_size b)"
proof (cases "buf_initsize_ret e (allocsize b) = 0")
  case True
  with assms(1) have "salvage_scan e b (slvg_off b) = Some res"
    by (simp add: wt_block_salvage_next_def)
  from scan_chain [OF this refl assms(2)] show ?thesis .
next
  case False
  with assms show ?thesis
    by (auto simp: wt_block_salvage_next_def)
qed

lemma calls_chain:
  assumes "salvage_calls e n b = Some (rs, b')" "aligned b"
  shows "\<exists>evs. trace b' = trace b @ evs \<and>
           chain (slvg_off b) (ranges evs) (slvg_off b') \<and>
           file_size b' = file_size b \<and> allocsize b' = allocsize b \<and> aligned b' \<and>
           ((\<exists>r\<in>set rs. eofp r) \<longrightarrow> file_size b \<le> slvg_off b') \<and>
           slvg_off b' \<le> max (slvg_off b) (file_size b)"
  using assms
proof (induction n arbitrary: b rs)
  case 0
  then show ?case by simp
next
  case (Suc n)
  from Suc.prems(1) obtain r rs' where r: "wt_block_salvage_next e b = Some r"
    and rs': "salvage_calls e n (blk r) = Some (rs', b')" and rs: "rs = r # rs'"
    by (auto split: option.splits)
  from next_chain [OF r Suc.prems(2)] obtain evs1 where 1:
    "trace (blk r) = trace b @ evs1" "chain (slvg_off b) (ranges evs1) (slvg_off (blk r))"
    "file_size (blk r) = file_size b" "allocsize (blk r) = allocsize b" "aligned (blk r)"
    "eofp r \<longrightarrow> file_size b \<le> slvg_off (blk r)"
    "slvg_off (blk r) \<le> max (slvg_off b) (file_size b)"
    by blast
  from Suc.IH [OF rs' 1(5)] obtain evs2 where 2:
    "trace b' = trace (blk r) @ evs2" "chain (slvg_off (blk r)) (ranges evs2) (slvg_off b')"
    "file_size b' = file_size (blk r)" "allocsize b' = allocsize (blk r)" "aligned b'"
    "(\<exists>r\<in>set rs'. eofp r) \<longrightarrow> file_size (blk r) \<le> slvg_off b'"
    "slvg_off b' \<le> max (slvg_off (blk r)) (file_size (blk r))"
    by blast
  have "chain (slvg_off b) (ranges (evs1 @ evs2)) (slvg_off b')"
    using 1(2) 2(2) by (auto simp: chain_append)
  moreover have "(\<exists>r\<in>set rs. eofp r) \<longrightarrow> file_size b \<le> slvg_off b'"
    using 1(3,6) 2(6) chain_le [OF 2(2)] rs by auto
  moreover have "slvg_off b' \<le> max (slvg_off b) (file_size b)"
    using 1(3,7) 2(7) by simp
  ultimately show ?case
    using 1(1,3,4) 2(1,3,4,5) by simp
qed

lemma start_aligned:
  assumes "wt_block_salvage_start e b = Some (0, b0)"
  shows "aligned b0" "slvg_off b0 = WT_BLOCK_DESC_SECTOR e"
proof -
  show "slvg_off b0 = WT_BLOCK_DESC_SECTOR e"
    using assms
    by (auto simp: wt_block_salvage_start_def salvage_start_tail_def wt_desc_init_def
        wt_ftruncate_def Let_def split: if_splits option.splits)
  show "aligned b0"
  proof (cases "file_size b > WT_BLOCK_DESC_SECTOR e")
    case False
    with assms show ?thesis
      by (auto simp: wt_block_salvage_start_def salvage_start_tail_def wt_desc_init_def
          Let_def aligned_def split: if_splits)
  next
    case True
    then obtain q where q: "off_div (file_size b - WT_BLOCK_DESC_SECTOR e) (uint (allocsize b)) = Some q"
      using assms by (auto simp: wt_block_salvage_start_def split: option.splits)
    from True off_div_Some [OF _ _ q] have "uint (allocsize b) \<noteq> 0" by simp
    then have A: "allocsize b \<noteq> 0" by auto
    from assms True q have "file_size b0 = q * uint (allocsize b) + WT_BLOCK_DESC_SECTOR e"
      and "allocsize b0 = allocsize b"
      by (auto simp: wt_block_salvage_start_def salvage_start_tail_def wt_desc_init_def
          wt_ftruncate_def Let_def split: if_splits)
    with A \<open>slvg_off b0 = WT_BLOCK_DESC_SECTOR e\<close> show ?thesis
      by (simp add: aligned_def)
  qed
qed

text \<open>
  C1. After a successful \<^verbatim>\<open>__wt_block_salvage_start\<close> and any number of calls of
  \<^verbatim>\<open>__wt_block_salvage_next\<close> (whatever they returned), every byte offset from the
  sector size up to the cursor lies in exactly one of the ranges returned as pages or
  freed as garbage, and every other offset in none: the ranges tile
  \<open>[sector, slvg_off)\<close> without gap or overlap. The ranges are non-empty and each ends
  before the next starts, so they are pairwise disjoint and none is classified twice.
  The file size does not change, and once a call has reported end of file the tiled
  region is \<open>[sector, file_size)\<close>.
\<close>

theorem salvage_pass_tiles:
  assumes "wt_block_salvage_start e b = Some (0, b0)"
      and "salvage_calls e n b0 = Some (rs, b')"
  shows "(\<forall>x. times_classified (pass_ranges b0 b') x =
               (if WT_BLOCK_DESC_SECTOR e \<le> x \<and> x < slvg_off b' then 1 else 0)) \<and>
         (\<forall>r\<in>set (pass_ranges b0 b'). fst r < snd r) \<and>
         (\<forall>i j. i < j \<and> j < length (pass_ranges b0 b') \<longrightarrow>
                snd (pass_ranges b0 b' ! i) \<le> fst (pass_ranges b0 b' ! j)) \<and>
         file_size b' = file_size b0 \<and>
         ((\<exists>r\<in>set rs. eofp r) \<longrightarrow>
            (\<forall>x. times_classified (pass_ranges b0 b') x =
               (if WT_BLOCK_DESC_SECTOR e \<le> x \<and> x < file_size b' then 1 else 0)))"
proof -
  note st = start_aligned [OF assms(1)]
  from calls_chain [OF assms(2) st(1)] obtain evs where evs:
    "trace b' = trace b0 @ evs" "chain (slvg_off b0) (ranges evs) (slvg_off b')"
    "file_size b' = file_size b0"
    "(\<exists>r\<in>set rs. eofp r) \<longrightarrow> file_size b0 \<le> slvg_off b'"
    "slvg_off b' \<le> max (slvg_off b0) (file_size b0)"
    by blast
  have pr: "pass_ranges b0 b' = ranges evs"
    by (simp add: pass_ranges_def evs(1))
  note c = evs(2) [unfolded st(2), folded pr]
  have cnt: "times_classified (pass_ranges b0 b') x =
               (if WT_BLOCK_DESC_SECTOR e \<le> x \<and> x < slvg_off b' then 1 else 0)" for x
    by (rule chain_count [OF c])
  have "times_classified (pass_ranges b0 b') x =
               (if WT_BLOCK_DESC_SECTOR e \<le> x \<and> x < file_size b' then 1 else 0)"
    if "\<exists>r\<in>set rs. eofp r" for x
    using that evs(3,4,5) chain_le [OF c] cnt [of x] st(2) by (auto simp: max_def split: if_splits)
  with cnt chain_nonempty [OF c] chain_sorted [OF c] evs(3) show ?thesis
    by blast
qed

theorem salvage_pass_tiles_witness:
  "wt_block_salvage_start ex_env ex_block = Some (0, ex_b0) \<and>
   salvage_calls ex_env 3 ex_b0 =
     Some ([\<lparr>ret = 0, eofp = False, addr = Some [1, 2, 11], blk = ex_b1\<rparr>,
            \<lparr>ret = 0, eofp = False, addr = Some [4, 1, 22], blk = ex_b2\<rparr>,
            \<lparr>ret = 0, eofp = True, addr = None, blk = ex_b2\<rparr>], ex_b2) \<and>
   pass_ranges ex_b0 ex_b2 = [(512, 1536), (1536, 2048), (2048, 2560)] \<and>
   (\<forall>x. times_classified (pass_ranges ex_b0 ex_b2) x = (if 512 \<le> x \<and> x < 2560 then 1 else 0))"
proof -
  have "(\<exists>r\<in>set [\<lparr>ret = 0, eofp = False, addr = Some [1, 2, 11], blk = ex_b1\<rparr>,
            \<lparr>ret = 0, eofp = False, addr = Some [4, 1, 22], blk = ex_b2\<rparr>,
            \<lparr>ret = 0, eofp = True, addr = None, blk = ex_b2\<rparr>]. eofp r) \<longrightarrow>
        (\<forall>x. times_classified (pass_ranges ex_b0 ex_b2) x =
          (if WT_BLOCK_DESC_SECTOR ex_env \<le> x \<and> x < file_size ex_b2 then 1 else 0))"
    using salvage_pass_tiles [OF ex_start ex_calls] by blast
  then have "\<forall>x. times_classified (pass_ranges ex_b0 ex_b2) x =
          (if 512 \<le> x \<and> x < 2560 then 1 else 0)"
    by (simp add: ex_env_def ex_b2_def)
  with ex_start ex_calls ex_pass_ranges show ?thesis
    by simp
qed

subsection \<open>The fields of a returned page\<close>

lemma probe_page_simps:
  "ret (probe_page e b offset) =
     addr_to_buffer_ret e offset (dsk_size (read_mem e offset (allocsize b)))
       (dsk_cksum (read_mem e offset (allocsize b)))"
  "eofp (probe_page e b offset) = False"
  "addr (probe_page e b offset) =
     (if ret (probe_page e b offset) = 0
      then Some (addr_cookie e offset (dsk_size (read_mem e offset (allocsize b)))
                   (dsk_cksum (read_mem e offset (allocsize b))))
      else None)"
  "trace (blk (probe_page e b offset)) =
     trace b @
     [Ev_read offset (allocsize b) (read_ret e offset (allocsize b)),
      Ev_block_read offset (dsk_size (read_mem e offset (allocsize b)))
        (dsk_cksum (read_mem e offset (allocsize b)))
        (block_read_ret e offset (dsk_size (read_mem e offset (allocsize b)))
           (dsk_cksum (read_mem e offset (allocsize b)))),
      Ev_addr_to_buffer offset (dsk_size (read_mem e offset (allocsize b)))
        (dsk_cksum (read_mem e offset (allocsize b))) (ret (probe_page e b offset))]"
  "slvg_off (blk (probe_page e b offset)) =
     (if ret (probe_page e b offset) = 0
      then offset + uint (dsk_size (read_mem e offset (allocsize b)))
      else slvg_off b)"
  "lsn (blk (probe_page e b offset)) =
     max (lsn b) (dsk_lsn (read_mem e offset (allocsize b)))"
  "file_size (blk (probe_page e b offset)) = file_size b"
  "allocsize (blk (probe_page e b offset)) = allocsize b"
  "flags (blk (probe_page e b offset)) = flags b"
  "freelist (blk (probe_page e b offset)) = freelist b"
  by (auto simp: probe_page_def return_page_def wt_block_addr_to_buffer_def
      wt_block_read_def wt_read_def lsn_update_def Let_def max_def)

subsection \<open>The scan returns\<close>

text \<open>
  With a positive allocation unit the loop ends: every way round it moves the offset
  one unit closer to the end of the file.
\<close>

lemma scan_returns:
  "allocsize b \<noteq> 0 \<Longrightarrow> \<exists>r. salvage_scan e b offset = Some r"
proof (induction "nat (file_size b - offset)" arbitrary: b offset rule: less_induct)
  case less
  from less.prems have Apos: "0 < uint (allocsize b)" by (rule uint_pos)
  have IH: "\<exists>r. salvage_scan e b' (offset + uint (allocsize b)) = Some r"
    if "offset < file_size b" "allocsize b' = allocsize b" "file_size b' = file_size b" for b'
    using that less.prems Apos by (intro less.hyps) auto
  show ?case
  proof (cases "offset < file_size b")
    case False
    then show ?thesis by (subst salvage_scan.simps) simp
  next
    case True
    note ih = IH [OF True]
    show ?thesis
      apply (subst salvage_scan.simps)
      using True less.prems
      apply (clarsimp simp: Let_def wt_read_def skip_def wt_block_free_def wt_block_read_def
          lsn_update_def)
      apply (intro conjI impI ih)
         apply simp_all
      done
  qed
qed

lemma next_returns:
  "allocsize b \<noteq> 0 \<Longrightarrow> \<exists>r. wt_block_salvage_next e b = Some r"
  using scan_returns [of b e "slvg_off b"] by (auto simp: wt_block_salvage_next_def Let_def)

lemma scan_frame:
  assumes "salvage_scan e b offset = Some res"
  shows "\<exists>evs. trace (blk res) = trace b @ evs \<and> file_size (blk res) = file_size b \<and>
           allocsize (blk res) = allocsize b \<and> flags (blk res) = flags b"
  using assms
proof (induction rule: salvage_scan_induct)
  case (eof e b offset)
  then show ?case by simp
next
  case (read_fail e b offset)
  then show ?case by (simp add: wt_read_def Let_def)
next
  case (free_fail e b offset bs)
  from probe_garbage_frame [OF free_fail(3)] probe_garbage_trace [OF free_fail(3,2)]
  show ?case by (simp add: wt_block_free_def Let_def)
next
  case (skipped e b offset bs res)
  note fr = probe_garbage_frame [OF skipped(3)]
  from skipped.IH fr probe_garbage_trace [OF skipped(3,2)] skipped(4) show ?case
    by (auto simp: skip_ok)
next
  case (page e b offset)
  then show ?case
    by (simp add: probe_page_simps)
qed

lemma calls_return:
  "allocsize b \<noteq> 0 \<Longrightarrow> \<exists>rs b'. salvage_calls e n b = Some (rs, b')"
proof (induction n arbitrary: b)
  case 0
  then show ?case by simp
next
  case (Suc n)
  from next_returns [OF Suc.prems] obtain r where r: "wt_block_salvage_next e b = Some r"
    by blast
  then have "salvage_scan e b (slvg_off b) = Some r \<or> blk r = b"
    by (auto simp: wt_block_salvage_next_def Let_def split: if_splits)
  then have "allocsize (blk r) = allocsize b"
    using scan_frame by auto
  with Suc.prems Suc.IH [of "blk r"] r show ?case
    by auto
qed

lemma scan_eof:
  assumes "salvage_scan e b offset = Some res" "slvg_off b = offset" "eofp res"
  shows "ret res = 0 \<and> addr res = None \<and> file_size (blk res) = file_size b \<and>
         file_size b \<le> slvg_off (blk res)"
  using assms
proof (induction rule: salvage_scan_induct)
  case (skipped e b offset bs res)
  note fr = probe_garbage_frame [OF skipped(3)]
  from skipped fr show ?case
    by (auto simp: skip_ok)
qed (simp_all add: probe_page_simps)

subsection \<open>A file no longer than the description sector\<close>

text \<open>
  C10. On a file no longer than the description sector \<^verbatim>\<open>__wt_block_salvage_start\<close>
  calls no truncation (its only collaborator call is the reset of the sector) and leaves
  the file size alone; when it succeeds the cursor is the sector size, hence at or past
  the end of the file, and the first \<^verbatim>\<open>__wt_block_salvage_next\<close> reports end of file
  with the block untouched: no read has been made. (The call sizes its scratch buffer
  before it looks at the cursor; the end-of-file report needs that to succeed.)
\<close>

theorem small_file_first_next_eof:
  assumes "file_size b \<le> WT_BLOCK_DESC_SECTOR e"
  shows "\<exists>b0. wt_block_salvage_start e b = Some (desc_init_ret e, b0) \<and>
           trace b0 = trace b @ [Ev_desc_init (desc_init_ret e)] \<and>
           file_size b0 = file_size b \<and>
           (desc_init_ret e = 0 \<longrightarrow>
              slvg_off b0 = WT_BLOCK_DESC_SECTOR e \<and> file_size b0 \<le> slvg_off b0 \<and>
              (buf_initsize_ret e (allocsize b0) = 0 \<longrightarrow>
                 wt_block_salvage_next e b0 =
                   Some \<lparr>ret = 0, eofp = True, addr = None, blk = b0\<rparr>))"
  using assms
  by (auto simp: wt_block_salvage_start_def salvage_start_tail_def wt_desc_init_def Let_def
      wt_block_salvage_next_def salvage_scan.simps)

theorem small_file_first_next_eof_witness:
  "file_size ex_small \<le> WT_BLOCK_DESC_SECTOR ex_env \<and>
   wt_block_salvage_start ex_env ex_small =
     Some (0, ex_small\<lparr>trace := [Ev_desc_init 0], slvg_off := 512\<rparr>) \<and>
   wt_block_salvage_next ex_env (ex_small\<lparr>trace := [Ev_desc_init 0], slvg_off := 512\<rparr>) =
     Some \<lparr>ret = 0, eofp = True, addr = None,
           blk = ex_small\<lparr>trace := [Ev_desc_init 0], slvg_off := 512\<rparr>\<rparr>"
proof -
  have le: "file_size ex_small \<le> WT_BLOCK_DESC_SECTOR ex_env"
    by (simp add: ex_small_def ex_env_def)
  from small_file_first_next_eof [OF le] obtain b0 where
    b0: "wt_block_salvage_start ex_env ex_small = Some (desc_init_ret ex_env, b0)"
    and nx: "desc_init_ret ex_env = 0 \<longrightarrow>
              slvg_off b0 = WT_BLOCK_DESC_SECTOR ex_env \<and> file_size b0 \<le> slvg_off b0 \<and>
              (buf_initsize_ret ex_env (allocsize b0) = 0 \<longrightarrow>
                 wt_block_salvage_next ex_env b0 =
                   Some \<lparr>ret = 0, eofp = True, addr = None, blk = b0\<rparr>)"
    by blast
  have st: "wt_block_salvage_start ex_env ex_small =
     Some (0, ex_small\<lparr>trace := [Ev_desc_init 0], slvg_off := 512\<rparr>)"
    by code_simp
  with b0 have "b0 = ex_small\<lparr>trace := [Ev_desc_init 0], slvg_off := 512\<rparr>" by simp
  with nx have "wt_block_salvage_next ex_env (ex_small\<lparr>trace := [Ev_desc_init 0], slvg_off := 512\<rparr>) =
     Some \<lparr>ret = 0, eofp = True, addr = None,
           blk = ex_small\<lparr>trace := [Ev_desc_init 0], slvg_off := 512\<rparr>\<rparr>"
    by (simp add: ex_env_def)
  with le st show ?thesis by simp
qed

subsection \<open>End of file\<close>

lemma scan_eof_units:
  assumes "salvage_scan e b offset = Some res" "slvg_off b = offset" "eofp res"
  shows "\<exists>n evs.
           trace (blk res) = trace b @ evs \<and>
           (\<forall>i<n. Ev_read (offset + int i * uint (allocsize b)) (allocsize b) 0 \<in> set evs) \<and>
           ranges evs =
             map (\<lambda>i. (offset + int i * uint (allocsize b),
                        offset + int (Suc i) * uint (allocsize b))) [0..<n] \<and>
           freelist (blk res) =
             freelist b @ map (\<lambda>i. (offset + int i * uint (allocsize b), allocsize b)) [0..<n] \<and>
           slvg_off (blk res) = offset + int n * uint (allocsize b) \<and>
           (offset < file_size b \<longrightarrow> 0 < n)"
  using assms
proof (induction rule: salvage_scan_induct)
  case (eof e b offset)
  then show ?case by (intro exI [of _ 0]) simp
next
  case (read_fail e b offset)
  then show ?case by simp
next
  case (free_fail e b offset bs)
  then show ?case by simp
next
  case (skipped e b offset bs res)
  note fr = probe_garbage_frame [OF skipped(3)]
  note tr = probe_garbage_trace [OF skipped(3,2)]
  let ?A = "uint (allocsize b)"
  have sk: "snd (skip e bs offset) =
     bs\<lparr>freelist := freelist bs @ [(offset, allocsize b)],
        trace := trace bs @ [Ev_block_free offset (allocsize b) 0],
        slvg_off := offset + ?A\<rparr>"
    using skip_ok [of e offset bs] skipped(4) fr by simp
  have "slvg_off (snd (skip e bs offset)) = offset + ?A"
    by (simp add: sk)
  from skipped.IH [OF this skipped.prems(2)] obtain n evs where IH:
    "trace (blk res) = trace bs @ Ev_block_free offset (allocsize b) 0 # evs"
    "\<forall>i<n. Ev_read (offset + ?A + int i * ?A) (allocsize b) 0 \<in> set evs"
    "ranges evs = map (\<lambda>i. (offset + ?A + int i * ?A, offset + ?A + int (Suc i) * ?A)) [0..<n]"
    "freelist (blk res) =
       freelist b @ (offset, allocsize b) #
         map (\<lambda>i. (offset + ?A + int i * ?A, allocsize b)) [0..<n]"
    "slvg_off (blk res) = offset + ?A + int n * ?A"
    using fr by (auto simp: sk)
  define g where "g = drop (length (trace b)) (trace bs)"
  have g: "trace bs = trace b @ g" "ranges g = []" "Ev_read offset (allocsize b) 0 \<in> set g"
    using tr by (auto simp: g_def)
  let ?evs = "g @ Ev_block_free offset (allocsize b) 0 # evs"
  have sh: "offset + ?A + int i * ?A = offset + int (Suc i) * ?A" for i
    by (simp add: algebra_simps)
  have 1: "trace (blk res) = trace b @ ?evs"
    using IH(1) g(1) by simp
  have 2: "\<forall>i<Suc n. Ev_read (offset + int i * ?A) (allocsize b) 0 \<in> set ?evs"
  proof (intro allI impI)
    fix i assume "i < Suc n"
    show "Ev_read (offset + int i * ?A) (allocsize b) 0 \<in> set ?evs"
    proof (cases i)
      case 0
      with g(3) show ?thesis by simp
    next
      case (Suc j)
      with \<open>i < Suc n\<close> IH(2) have "Ev_read (offset + ?A + int j * ?A) (allocsize b) 0 \<in> set evs"
        by simp
      with Suc show ?thesis by (simp only: sh) simp
    qed
  qed
  have 3: "ranges ?evs =
      map (\<lambda>i. (offset + int i * ?A, offset + int (Suc i) * ?A)) [0..<Suc n]"
    using g(2) IH(3) by (simp only: map_upt_Suc sh) (simp add: algebra_simps)
  have 4: "freelist (blk res) =
      freelist b @ map (\<lambda>i. (offset + int i * ?A, allocsize b)) [0..<Suc n]"
    using IH(4) by (simp only: map_upt_Suc sh) simp
  have 5: "slvg_off (blk res) = offset + int (Suc n) * ?A"
    using IH(5) by (simp add: algebra_simps)
  from 1 2 3 4 5 show ?case
    by (intro exI [of _ "Suc n"] exI [of _ ?evs]) simp
next
  case (page e b offset)
  then show ?case by (simp add: probe_page_simps)
qed


text \<open>
  C5, as stated, fails: on the file of one sector and one garbage unit the cursor (512)
  is below the file size (1024) when \<^verbatim>\<open>__wt_block_salvage_next\<close> is called, and the call
  reads the unit, frees it, moves the cursor to 1024 and reports end of file.
\<close>

theorem next_eof_counterexample:
  "wt_block_salvage_start ex_env ex_gblock = Some (0, ex_g0) \<and>
   slvg_off ex_g0 = 512 \<and> file_size ex_g0 = 1024 \<and>
   wt_block_salvage_next ex_env ex_g0 =
     Some \<lparr>ret = 0, eofp = True, addr = None, blk = ex_g1\<rparr> \<and>
   trace ex_g1 = trace ex_g0 @ [Ev_read 512 512 0, Ev_block_free 512 512 0] \<and>
   slvg_off ex_g1 = 1024"
  using ex_gstart ex_gnext by (simp add: ex_g0_def ex_g1_def)

text \<open>
  C5, amended. If the cursor is at or past the file size when
  \<^verbatim>\<open>__wt_block_salvage_next\<close> is called (and the scratch buffer can be sized), the call
  reports end of file, calls no collaborator and returns the block as it was. Whenever
  the call reports end of file it returns 0 and no cookie, and the cursor is at or past
  the file size on return. It has then, for some \<open>n\<close>, read the header of each of the
  \<open>n\<close> allocation units from the cursor at call time on, freed exactly those \<open>n\<close>
  units (they are all it classified and all it added to the free list, so no page was
  returned), and left the cursor \<open>n\<close> units further; \<open>n\<close> is positive when the cursor
  was below the file size at call time.
\<close>

theorem next_eof:
  "(file_size b \<le> slvg_off b \<and> buf_initsize_ret e (allocsize b) = 0 \<longrightarrow>
      wt_block_salvage_next e b = Some \<lparr>ret = 0, eofp = True, addr = None, blk = b\<rparr>) \<and>
   (wt_block_salvage_next e b = Some res \<and> eofp res \<longrightarrow>
      ret res = 0 \<and> addr res = None \<and> file_size (blk res) \<le> slvg_off (blk res) \<and>
      (slvg_off b < file_size b \<longrightarrow> slvg_off b < slvg_off (blk res)) \<and>
      (\<exists>n evs.
         trace (blk res) = trace b @ evs \<and>
         (\<forall>i<n. Ev_read (slvg_off b + int i * uint (allocsize b)) (allocsize b) 0 \<in> set evs) \<and>
         ranges evs =
           map (\<lambda>i. (slvg_off b + int i * uint (allocsize b),
                      slvg_off b + int (Suc i) * uint (allocsize b))) [0..<n] \<and>
         freelist (blk res) =
           freelist b @
           map (\<lambda>i. (slvg_off b + int i * uint (allocsize b), allocsize b)) [0..<n] \<and>
         slvg_off (blk res) = slvg_off b + int n * uint (allocsize b) \<and>
         (slvg_off b < file_size b \<longrightarrow> 0 < n)))"
proof (intro conjI impI)
  assume "file_size b \<le> slvg_off b \<and> buf_initsize_ret e (allocsize b) = 0"
  then show "wt_block_salvage_next e b = Some \<lparr>ret = 0, eofp = True, addr = None, blk = b\<rparr>"
    by (simp add: wt_block_salvage_next_def salvage_scan.simps)
next
  assume a: "wt_block_salvage_next e b = Some res \<and> eofp res"
  then have s: "salvage_scan e b (slvg_off b) = Some res"
    by (auto simp: wt_block_salvage_next_def Let_def split: if_splits)
  from scan_eof [OF s refl] a
  show "ret res = 0" "addr res = None" "file_size (blk res) \<le> slvg_off (blk res)"
    "slvg_off b < file_size b \<Longrightarrow> slvg_off b < slvg_off (blk res)"
    by simp_all
  from scan_eof_units [OF s refl] a
  show "\<exists>n evs.
         trace (blk res) = trace b @ evs \<and>
         (\<forall>i<n. Ev_read (slvg_off b + int i * uint (allocsize b)) (allocsize b) 0 \<in> set evs) \<and>
         ranges evs =
           map (\<lambda>i. (slvg_off b + int i * uint (allocsize b),
                      slvg_off b + int (Suc i) * uint (allocsize b))) [0..<n] \<and>
         freelist (blk res) =
           freelist b @
           map (\<lambda>i. (slvg_off b + int i * uint (allocsize b), allocsize b)) [0..<n] \<and>
         slvg_off (blk res) = slvg_off b + int n * uint (allocsize b) \<and>
         (slvg_off b < file_size b \<longrightarrow> 0 < n)"
    by simp
qed


theorem next_eof_witness:
  "file_size ex_b2 \<le> slvg_off ex_b2 \<and> buf_initsize_ret ex_env (allocsize ex_b2) = 0 \<and>
   wt_block_salvage_next ex_env ex_b2 = Some \<lparr>ret = 0, eofp = True, addr = None, blk = ex_b2\<rparr> \<and>
   wt_block_salvage_next ex_env ex_g0 = Some \<lparr>ret = 0, eofp = True, addr = None, blk = ex_g1\<rparr> \<and>
   slvg_off ex_g0 < file_size ex_g0 \<and> file_size ex_g1 \<le> slvg_off ex_g1 \<and>
   slvg_off ex_g0 < slvg_off ex_g1 \<and>
   (\<exists>n evs.
      trace ex_g1 = trace ex_g0 @ evs \<and>
      (\<forall>i<n. Ev_read (512 + int i * 512) 512 0 \<in> set evs) \<and>
      ranges evs = map (\<lambda>i. (512 + int i * 512, 512 + int (Suc i) * 512)) [0..<n] \<and>
      freelist ex_g1 = freelist ex_g0 @ map (\<lambda>i. (512 + int i * 512, 512)) [0..<n] \<and>
      slvg_off ex_g1 = 512 + int n * 512 \<and> 0 < n)"
proof -
  have 1: "file_size ex_b2 \<le> slvg_off ex_b2 \<and> buf_initsize_ret ex_env (allocsize ex_b2) = 0"
    by (simp add: ex_b2_def ex_env_def)
  with next_eof [of ex_b2 ex_env]
  have 2: "wt_block_salvage_next ex_env ex_b2 =
      Some \<lparr>ret = 0, eofp = True, addr = None, blk = ex_b2\<rparr>"
    by blast
  have 3: "slvg_off ex_g0 < file_size ex_g0"
    by (simp add: ex_g0_def)
  have v: "slvg_off ex_g0 = 512" "allocsize ex_g0 = 512"
    by (simp_all add: ex_g0_def)
  note t = next_eof [of ex_g0 ex_env "\<lparr>ret = 0, eofp = True, addr = None, blk = ex_g1\<rparr>"]
  from t ex_gnext 3
  have 4: "file_size ex_g1 \<le> slvg_off ex_g1 \<and> slvg_off ex_g0 < slvg_off ex_g1"
    by simp
  from t ex_gnext 3
  have 5: "\<exists>n evs.
      trace ex_g1 = trace ex_g0 @ evs \<and>
      (\<forall>i<n. Ev_read (512 + int i * 512) 512 0 \<in> set evs) \<and>
      ranges evs = map (\<lambda>i. (512 + int i * 512, 512 + int (Suc i) * 512)) [0..<n] \<and>
      freelist ex_g1 = freelist ex_g0 @ map (\<lambda>i. (512 + int i * 512, 512)) [0..<n] \<and>
      slvg_off ex_g1 = 512 + int n * 512 \<and> 0 < n"
    by (simp add: v)
  from 1 2 3 4 5 ex_gnext show ?thesis by simp
qed

subsection \<open>One probe\<close>

text \<open>
  C6. A probe at \<open>offset\<close> below the file size whose header read succeeds (positive
  allocation unit) returns, and the collaborator call that follows the header read is
  the free of the unit at \<open>offset\<close>, with no full read attempted, exactly when the
  declared size is 0, or not a multiple of the allocation size, or above the maximum
  page size, or reaches past the file size; in every other case it is the full read of
  the declared size with the header's checksum.
\<close>

theorem header_rejected_iff:
  assumes "offset < file_size b"
      and "read_ret e offset (allocsize b) = 0"
      and "allocsize b \<noteq> 0"
  shows "\<exists>res evs.
           salvage_scan e b offset = Some res \<and>
           trace (blk res) = trace b @ Ev_read offset (allocsize b) 0 # evs \<and>
           ((dsk_size (read_mem e offset (allocsize b)) = 0 \<or>
             dsk_size (read_mem e offset (allocsize b)) mod allocsize b \<noteq> 0 \<or>
             dsk_size (read_mem e offset (allocsize b)) > WT_BTREE_PAGE_SIZE_MAX e \<or>
             offset + uint (dsk_size (read_mem e offset (allocsize b))) > file_size b) =
            (\<exists>rest. evs = Ev_block_free offset (allocsize b)
                            (block_free_ret e offset (allocsize b)) # rest)) \<and>
           ((\<not> (dsk_size (read_mem e offset (allocsize b)) = 0 \<or>
                dsk_size (read_mem e offset (allocsize b)) mod allocsize b \<noteq> 0 \<or>
                dsk_size (read_mem e offset (allocsize b)) > WT_BTREE_PAGE_SIZE_MAX e \<or>
                offset + uint (dsk_size (read_mem e offset (allocsize b))) > file_size b)) =
            (\<exists>rest. evs = Ev_block_read offset (dsk_size (read_mem e offset (allocsize b)))
                            (dsk_cksum (read_mem e offset (allocsize b)))
                            (block_read_ret e offset (dsk_size (read_mem e offset (allocsize b)))
                               (dsk_cksum (read_mem e offset (allocsize b)))) # rest))"
proof -
  define dsk where "dsk = read_mem e offset (allocsize b)"
  from scan_returns [OF assms(3)] obtain res where res: "salvage_scan e b offset = Some res"
    by blast
  have ins: "size_insane e b offset (dsk_size dsk) =
      (dsk_size dsk = 0 \<or> dsk_size dsk mod allocsize b \<noteq> 0 \<or>
       dsk_size dsk > WT_BTREE_PAGE_SIZE_MAX e \<or> offset + uint (dsk_size dsk) > file_size b)"
    by (simp add: size_insane_def)
  show ?thesis
  proof (cases "size_insane e b offset (dsk_size dsk)")
    case True
    have "\<exists>rest. trace (blk res) = trace b @ Ev_read offset (allocsize b) 0 #
            Ev_block_free offset (allocsize b) (block_free_ret e offset (allocsize b)) # rest"
      using res assms True
      apply (subst (asm) salvage_scan.simps)
      apply (auto simp: Let_def wt_read_def skip_def wt_block_free_def dsk_def
          split: if_splits dest!: scan_frame)
      done
    with res True ins show ?thesis
      unfolding dsk_def [symmetric] by auto
  next
    case False
    have "\<exists>rest. trace (blk res) = trace b @ Ev_read offset (allocsize b) 0 #
            Ev_block_read offset (dsk_size dsk) (dsk_cksum dsk)
              (block_read_ret e offset (dsk_size dsk) (dsk_cksum dsk)) # rest"
      using res assms False
      apply (subst (asm) salvage_scan.simps)
      apply (auto simp: Let_def wt_read_def skip_def wt_block_free_def wt_block_read_def
          lsn_update_def return_page_def wt_block_addr_to_buffer_def dsk_def
          split: if_splits dest!: scan_frame)
      done
    with res False ins show ?thesis
      unfolding dsk_def [symmetric] by auto
  qed
qed

lemma size_insane_cong:
  "allocsize b' = allocsize b \<Longrightarrow> file_size b' = file_size b \<Longrightarrow>
   size_insane e b' offset sz = size_insane e b offset sz"
  by (simp add: size_insane_def)

theorem header_rejected_iff_witness:
  "512 < file_size ex_g0 \<and> read_ret ex_env 512 (allocsize ex_g0) = 0 \<and> allocsize ex_g0 \<noteq> 0 \<and>
   file_size ex_g0 < 512 + uint (dsk_size (read_mem ex_env 512 (allocsize ex_g0))) \<and>
   (\<exists>res rest. salvage_scan ex_env ex_g0 512 = Some res \<and>
      trace (blk res) = trace ex_g0 @ Ev_read 512 512 0 # Ev_block_free 512 512 0 # rest)"
proof -
  have h: "512 < file_size ex_g0" "read_ret ex_env 512 (allocsize ex_g0) = 0"
    "allocsize ex_g0 \<noteq> 0"
    by (simp_all add: ex_g0_def ex_env_def)
  have big: "file_size ex_g0 < 512 + uint (dsk_size (read_mem ex_env 512 (allocsize ex_g0)))"
    by (simp add: ex_g0_def ex_env_def)
  from header_rejected_iff [OF h] obtain res evs where
    r: "salvage_scan ex_env ex_g0 512 = Some res"
    and t: "trace (blk res) = trace ex_g0 @ Ev_read 512 (allocsize ex_g0) 0 # evs"
    and f: "(dsk_size (read_mem ex_env 512 (allocsize ex_g0)) = 0 \<or>
             dsk_size (read_mem ex_env 512 (allocsize ex_g0)) mod allocsize ex_g0 \<noteq> 0 \<or>
             dsk_size (read_mem ex_env 512 (allocsize ex_g0)) > WT_BTREE_PAGE_SIZE_MAX ex_env \<or>
             512 + uint (dsk_size (read_mem ex_env 512 (allocsize ex_g0))) > file_size ex_g0) =
            (\<exists>rest. evs = Ev_block_free 512 (allocsize ex_g0)
                            (block_free_ret ex_env 512 (allocsize ex_g0)) # rest)"
    by (elim exE conjE) (rule that)
  from f big obtain rest where "evs = Ev_block_free 512 (allocsize ex_g0)
                            (block_free_ret ex_env 512 (allocsize ex_g0)) # rest"
    by blast
  with t have "trace (blk res) = trace ex_g0 @ Ev_read 512 512 0 # Ev_block_free 512 512 0 # rest"
    by (simp add: ex_g0_def ex_env_def)
  with r h big show ?thesis by blast
qed

subsection \<open>A returned page\<close>

lemma scan_page:
  assumes "salvage_scan e b offset = Some res" "ret res = 0" "\<not> eofp res"
  shows "\<exists>off evs. offset \<le> off \<and> off < file_size b \<and>
           trace (blk res) = trace b @ evs @
             [Ev_read off (allocsize b) 0,
              Ev_block_read off (dsk_size (read_mem e off (allocsize b)))
                (dsk_cksum (read_mem e off (allocsize b))) 0,
              Ev_addr_to_buffer off (dsk_size (read_mem e off (allocsize b)))
                (dsk_cksum (read_mem e off (allocsize b))) 0] \<and>
           \<not> size_insane e b off (dsk_size (read_mem e off (allocsize b))) \<and>
           addr res = Some (addr_cookie e off (dsk_size (read_mem e off (allocsize b)))
                              (dsk_cksum (read_mem e off (allocsize b)))) \<and>
           slvg_off (blk res) = off + uint (dsk_size (read_mem e off (allocsize b)))"
  using assms
proof (induction rule: salvage_scan_induct)
  case (eof e b offset)
  then show ?case by simp
next
  case (read_fail e b offset)
  then show ?case by simp
next
  case (free_fail e b offset bs)
  then show ?case by simp
next
  case (skipped e b offset bs res)
  note fr = probe_garbage_frame [OF skipped(3)]
  note tr = probe_garbage_trace [OF skipped(3,2)]
  have sk: "snd (skip e bs offset) =
     bs\<lparr>freelist := freelist bs @ [(offset, allocsize b)],
        trace := trace bs @ [Ev_block_free offset (allocsize b) 0],
        slvg_off := offset + uint (allocsize b)\<rparr>"
    using skip_ok [of e offset bs] skipped(4) fr by simp
  from skipped.IH [OF skipped.prems] obtain off evs where 1:
    "offset + uint (allocsize b) \<le> off" "off < file_size b"
    "trace (blk res) = trace (snd (skip e bs offset)) @ evs @
             [Ev_read off (allocsize b) 0,
              Ev_block_read off (dsk_size (read_mem e off (allocsize b)))
                (dsk_cksum (read_mem e off (allocsize b))) 0,
              Ev_addr_to_buffer off (dsk_size (read_mem e off (allocsize b)))
                (dsk_cksum (read_mem e off (allocsize b))) 0]"
    "\<not> size_insane e b off (dsk_size (read_mem e off (allocsize b)))"
    "addr res = Some (addr_cookie e off (dsk_size (read_mem e off (allocsize b)))
                              (dsk_cksum (read_mem e off (allocsize b))))"
    "slvg_off (blk res) = off + uint (dsk_size (read_mem e off (allocsize b)))"
    using fr size_insane_cong [of "snd (skip e bs offset)" b e]
    by (auto simp: sk)
  from 1(1) have "offset \<le> off"
    using uint_ge_0 [of "allocsize b"] by linarith
  with 1 tr show ?case
    by (intro exI [of _ off]) (auto simp: sk)
next
  case (page e b offset)
  then show ?case
    by (intro exI [of _ offset] exI [of _ "[]"]) (simp add: probe_page_simps)
qed

lemma verified_probe_returns:
  assumes "offset < file_size b" "read_ret e offset (allocsize b) = 0" "allocsize b \<noteq> 0"
    and "\<not> size_insane e b offset (dsk_size (read_mem e offset (allocsize b)))"
    and "block_read_ret e offset (dsk_size (read_mem e offset (allocsize b)))
           (dsk_cksum (read_mem e offset (allocsize b))) = 0"
  shows "salvage_scan e b offset = Some (probe_page e b offset)"
  using assms
  by (subst salvage_scan.simps)
    (simp add: Let_def wt_read_def wt_block_read_def probe_page_def)

text \<open>
  C7. When \<^verbatim>\<open>__wt_block_salvage_next\<close> returns a page (return value 0, no end of file),
  its last three collaborator calls are the header read at some \<open>offset\<close> at or after
  the old cursor, the successful full read of the size and checksum found in that header,
  and the encoding of (offset, size, checksum); the cookie handed back is that encoding
  and the cursor is \<open>offset + size\<close>. And a probe at \<open>off\<close> whose header passes the
  size test and whose full read succeeds returns with that cookie and the cursor at
  \<open>off + size\<close>, when the encoder does not fail.
\<close>

theorem next_returns_page:
  "(wt_block_salvage_next e b = Some res \<and> ret res = 0 \<and> \<not> eofp res \<longrightarrow>
      (\<exists>offset evs. slvg_off b \<le> offset \<and> offset < file_size b \<and>
           trace (blk res) = trace b @ evs @
             [Ev_read offset (allocsize b) 0,
              Ev_block_read offset (dsk_size (read_mem e offset (allocsize b)))
                (dsk_cksum (read_mem e offset (allocsize b))) 0,
              Ev_addr_to_buffer offset (dsk_size (read_mem e offset (allocsize b)))
                (dsk_cksum (read_mem e offset (allocsize b))) 0] \<and>
           addr res = Some (addr_cookie e offset (dsk_size (read_mem e offset (allocsize b)))
                              (dsk_cksum (read_mem e offset (allocsize b)))) \<and>
           slvg_off (blk res) = offset + uint (dsk_size (read_mem e offset (allocsize b))))) \<and>
   (off < file_size b \<and> read_ret e off (allocsize b) = 0 \<and> allocsize b \<noteq> 0 \<and>
    \<not> size_insane e b off (dsk_size (read_mem e off (allocsize b))) \<and>
    block_read_ret e off (dsk_size (read_mem e off (allocsize b)))
      (dsk_cksum (read_mem e off (allocsize b))) = 0 \<and>
    addr_to_buffer_ret e off (dsk_size (read_mem e off (allocsize b)))
      (dsk_cksum (read_mem e off (allocsize b))) = 0 \<longrightarrow>
      (\<exists>r. salvage_scan e b off = Some r \<and> ret r = 0 \<and> \<not> eofp r \<and>
           addr r = Some (addr_cookie e off (dsk_size (read_mem e off (allocsize b)))
                            (dsk_cksum (read_mem e off (allocsize b)))) \<and>
           slvg_off (blk r) = off + uint (dsk_size (read_mem e off (allocsize b)))))"
proof (intro conjI impI)
  assume a: "wt_block_salvage_next e b = Some res \<and> ret res = 0 \<and> \<not> eofp res"
  then have "salvage_scan e b (slvg_off b) = Some res"
    by (auto simp: wt_block_salvage_next_def Let_def split: if_splits)
  from scan_page [OF this] a
  show "\<exists>offset evs. slvg_off b \<le> offset \<and> offset < file_size b \<and>
           trace (blk res) = trace b @ evs @
             [Ev_read offset (allocsize b) 0,
              Ev_block_read offset (dsk_size (read_mem e offset (allocsize b)))
                (dsk_cksum (read_mem e offset (allocsize b))) 0,
              Ev_addr_to_buffer offset (dsk_size (read_mem e offset (allocsize b)))
                (dsk_cksum (read_mem e offset (allocsize b))) 0] \<and>
           addr res = Some (addr_cookie e offset (dsk_size (read_mem e offset (allocsize b)))
                              (dsk_cksum (read_mem e offset (allocsize b)))) \<and>
           slvg_off (blk res) = offset + uint (dsk_size (read_mem e offset (allocsize b)))"
    by blast
next
  assume a: "off < file_size b \<and> read_ret e off (allocsize b) = 0 \<and> allocsize b \<noteq> 0 \<and>
    \<not> size_insane e b off (dsk_size (read_mem e off (allocsize b))) \<and>
    block_read_ret e off (dsk_size (read_mem e off (allocsize b)))
      (dsk_cksum (read_mem e off (allocsize b))) = 0 \<and>
    addr_to_buffer_ret e off (dsk_size (read_mem e off (allocsize b)))
      (dsk_cksum (read_mem e off (allocsize b))) = 0"
  then have "salvage_scan e b off = Some (probe_page e b off)"
    by (intro verified_probe_returns) simp_all
  with a show "\<exists>r. salvage_scan e b off = Some r \<and> ret r = 0 \<and> \<not> eofp r \<and>
           addr r = Some (addr_cookie e off (dsk_size (read_mem e off (allocsize b)))
                            (dsk_cksum (read_mem e off (allocsize b)))) \<and>
           slvg_off (blk r) = off + uint (dsk_size (read_mem e off (allocsize b)))"
    by (simp add: probe_page_simps)
qed

theorem next_returns_page_witness:
  "wt_block_salvage_next ex_env ex_b1 =
     Some \<lparr>ret = 0, eofp = False, addr = Some [4, 1, 22], blk = ex_b2\<rparr> \<and>
   (\<exists>offset evs. slvg_off ex_b1 \<le> offset \<and> offset < file_size ex_b1 \<and>
      trace ex_b2 = trace ex_b1 @ evs @
        [Ev_read offset 512 0,
         Ev_block_read offset (dsk_size (read_mem ex_env offset 512))
           (dsk_cksum (read_mem ex_env offset 512)) 0,
         Ev_addr_to_buffer offset (dsk_size (read_mem ex_env offset 512))
           (dsk_cksum (read_mem ex_env offset 512)) 0] \<and>
      Some [4, 1, 22] = Some (addr_cookie ex_env offset (dsk_size (read_mem ex_env offset 512))
                         (dsk_cksum (read_mem ex_env offset 512))) \<and>
      slvg_off ex_b2 = offset + uint (dsk_size (read_mem ex_env offset 512))) \<and>
   512 < file_size ex_b0 \<and> read_ret ex_env 512 (allocsize ex_b0) = 0 \<and>
   allocsize ex_b0 \<noteq> 0 \<and>
   \<not> size_insane ex_env ex_b0 512 (dsk_size (read_mem ex_env 512 (allocsize ex_b0))) \<and>
   block_read_ret ex_env 512 1024 11 = 0 \<and> addr_to_buffer_ret ex_env 512 1024 11 = 0 \<and>
   (\<exists>r. salvage_scan ex_env ex_b0 512 = Some r \<and> ret r = 0 \<and> \<not> eofp r \<and>
        addr r = Some (addr_cookie ex_env 512 1024 11) \<and> slvg_off (blk r) = 1536)"
proof -
  have A: "allocsize ex_b1 = 512" by (simp add: ex_b1_def)
  have 1: "\<exists>offset evs. slvg_off ex_b1 \<le> offset \<and> offset < file_size ex_b1 \<and>
      trace ex_b2 = trace ex_b1 @ evs @
        [Ev_read offset 512 0,
         Ev_block_read offset (dsk_size (read_mem ex_env offset 512))
           (dsk_cksum (read_mem ex_env offset 512)) 0,
         Ev_addr_to_buffer offset (dsk_size (read_mem ex_env offset 512))
           (dsk_cksum (read_mem ex_env offset 512)) 0] \<and>
      Some [4, 1, 22] = Some (addr_cookie ex_env offset (dsk_size (read_mem ex_env offset 512))
                         (dsk_cksum (read_mem ex_env offset 512))) \<and>
      slvg_off ex_b2 = offset + uint (dsk_size (read_mem ex_env offset 512))"
    using next_returns_page [of ex_env ex_b1
        "\<lparr>ret = 0, eofp = False, addr = Some [4, 1, 22], blk = ex_b2\<rparr>"] ex_next2
    by (simp add: A)
  have h: "512 < file_size ex_b0" "read_ret ex_env 512 (allocsize ex_b0) = 0"
    "allocsize ex_b0 \<noteq> 0"
    "\<not> size_insane ex_env ex_b0 512 (dsk_size (read_mem ex_env 512 (allocsize ex_b0)))"
    "block_read_ret ex_env 512 1024 11 = 0" "addr_to_buffer_ret ex_env 512 1024 11 = 0"
    by (simp_all add: ex_b0_def ex_env_def size_insane_def)
  have m: "read_mem ex_env 512 (allocsize ex_b0) = \<lparr>dsk_size = 1024, dsk_cksum = 11, dsk_lsn = 7\<rparr>"
    by (simp add: ex_env_def)
  have 2: "\<exists>r. salvage_scan ex_env ex_b0 512 = Some r \<and> ret r = 0 \<and> \<not> eofp r \<and>
        addr r = Some (addr_cookie ex_env 512 1024 11) \<and> slvg_off (blk r) = 1536"
    using next_returns_page [of ex_env ex_b0 _ 512] h
    by (simp add: m)
  from 1 2 h ex_next2 show ?thesis by blast
qed

subsection \<open>Failing collaborators\<close>

lemma scan_io_failure:
  assumes "salvage_scan e b offset = Some res" "slvg_off b = offset"
  shows "\<exists>evs. trace (blk res) = trace b @ evs \<and> offset \<le> slvg_off (blk res) \<and>
           ((\<forall>ev\<in>set evs. io_failure ev = None) \<or>
            (\<exists>pre ev. evs = pre @ [ev] \<and> (\<forall>ev'\<in>set pre. io_failure ev' = None) \<and>
               io_failure ev = Some (slvg_off (blk res), ret res) \<and>
               \<not> eofp res \<and> addr res = None))"
  using assms
proof (induction rule: salvage_scan_induct)
  case (eof e b offset)
  then show ?case by simp
next
  case (read_fail e b offset)
  then show ?case by (simp add: wt_read_def Let_def)
next
  case (free_fail e b offset bs)
  note fr = probe_garbage_frame [OF free_fail(3)]
  note tr = probe_garbage_trace [OF free_fail(3,2)]
  let ?ev = "Ev_block_free offset (allocsize b) (block_free_ret e offset (allocsize b))"
  have "trace (snd (wt_block_free e bs offset (allocsize b))) = trace bs @ [?ev]"
    and "slvg_off (snd (wt_block_free e bs offset (allocsize b))) = offset"
    using fr free_fail(5) by (simp_all add: wt_block_free_def Let_def)
  with tr free_fail(4) show ?case
    by (auto simp: append_eq_append_conv2 intro!: exI [of _ ?ev])
next
  case (skipped e b offset bs res)
  note fr = probe_garbage_frame [OF skipped(3)]
  note tr = probe_garbage_trace [OF skipped(3,2)]
  have sk: "snd (skip e bs offset) =
     bs\<lparr>freelist := freelist bs @ [(offset, allocsize b)],
        trace := trace bs @ [Ev_block_free offset (allocsize b) 0],
        slvg_off := offset + uint (allocsize b)\<rparr>"
    using skip_ok [of e offset bs] skipped(4) fr by simp
  have "slvg_off (snd (skip e bs offset)) = offset + uint (allocsize b)"
    by (simp add: sk)
  from skipped.IH [OF this] obtain evs where 1:
    "trace (blk res) = trace (snd (skip e bs offset)) @ evs"
    "offset + uint (allocsize b) \<le> slvg_off (blk res)"
    "(\<forall>ev\<in>set evs. io_failure ev = None) \<or>
            (\<exists>pre ev. evs = pre @ [ev] \<and> (\<forall>ev'\<in>set pre. io_failure ev' = None) \<and>
               io_failure ev = Some (slvg_off (blk res), ret res) \<and>
               \<not> eofp res \<and> addr res = None)"
    by blast
  define g where "g = drop (length (trace b)) (trace bs) @ [Ev_block_free offset (allocsize b) 0]"
  have g: "trace (snd (skip e bs offset)) = trace b @ g" "\<forall>ev\<in>set g. io_failure ev = None"
    using tr by (auto simp: g_def sk)
  from 1(2) have le: "offset \<le> slvg_off (blk res)"
    using uint_ge_0 [of "allocsize b"] by linarith
  from 1(3) show ?case
  proof
    assume "\<forall>ev\<in>set evs. io_failure ev = None"
    with g 1(1) le show ?thesis
      by (intro exI [of _ "g @ evs"]) auto
  next
    assume "\<exists>pre ev. evs = pre @ [ev] \<and> (\<forall>ev'\<in>set pre. io_failure ev' = None) \<and>
               io_failure ev = Some (slvg_off (blk res), ret res) \<and>
               \<not> eofp res \<and> addr res = None"
    then obtain pre ev where 2: "evs = pre @ [ev]" "\<forall>ev'\<in>set pre. io_failure ev' = None"
      "io_failure ev = Some (slvg_off (blk res), ret res)" "\<not> eofp res" "addr res = None"
      by blast
    have "\<exists>pre' ev. g @ evs = pre' @ [ev] \<and> (\<forall>ev'\<in>set pre'. io_failure ev' = None) \<and>
               io_failure ev = Some (slvg_off (blk res), ret res) \<and>
               \<not> eofp res \<and> addr res = None"
      using 2 g(2) by (intro exI [of _ "g @ pre"] exI [of _ ev]) auto
    with g 1(1) le show ?thesis
      by (intro exI [of _ "g @ evs"]) simp
  qed
next
  case (page e b offset)
  then have "offset \<le> offset + uint (dsk_size (read_mem e offset (allocsize b)))"
    using uint_ge_0 [of "dsk_size (read_mem e offset (allocsize b))"] by linarith
  with page show ?case
    by (simp add: probe_page_simps)
qed

text \<open>
  C9. If a header read or a free fails inside \<^verbatim>\<open>__wt_block_salvage_next\<close>, it is the
  last collaborator call of that invocation and the only failed one, the call returns
  its error with no end of file and no cookie, and the cursor is left at the offset of
  the region whose read or free failed, which is not before the cursor at call time.
\<close>

theorem next_io_failure:
  assumes "wt_block_salvage_next e b = Some res"
      and "ev \<in> set (drop (length (trace b)) (trace (blk res)))"
      and "io_failure ev = Some (offset, r)"
  shows "ret res = r \<and> \<not> eofp res \<and> addr res = None \<and>
         slvg_off (blk res) = offset \<and> slvg_off b \<le> offset \<and>
         (\<exists>pre. trace (blk res) = trace b @ pre @ [ev] \<and>
                (\<forall>ev'\<in>set pre. io_failure ev' = None))"
proof -
  from assms(1,2) have "salvage_scan e b (slvg_off b) = Some res"
    by (auto simp: wt_block_salvage_next_def Let_def split: if_splits)
  from scan_io_failure [OF this refl] obtain evs where 1:
    "trace (blk res) = trace b @ evs" "slvg_off b \<le> slvg_off (blk res)"
    "(\<forall>ev\<in>set evs. io_failure ev = None) \<or>
            (\<exists>pre ev. evs = pre @ [ev] \<and> (\<forall>ev'\<in>set pre. io_failure ev' = None) \<and>
               io_failure ev = Some (slvg_off (blk res), ret res) \<and>
               \<not> eofp res \<and> addr res = None)"
    by blast
  from assms(2) 1(1) have in_evs: "ev \<in> set evs" by simp
  with assms(3) 1(3) obtain pre ev0 where 2: "evs = pre @ [ev0]"
    "\<forall>ev'\<in>set pre. io_failure ev' = None"
    "io_failure ev0 = Some (slvg_off (blk res), ret res)" "\<not> eofp res" "addr res = None"
    by force
  from in_evs 2(1,2) assms(3) have "ev = ev0" by auto
  with 1 2 assms(3) show ?thesis by auto
qed

theorem next_io_failure_witness:
  "wt_block_salvage_next ex_env_fail ex_b1 =
     Some \<lparr>ret = 5, eofp = False, addr = None, blk = ex_f\<rparr> \<and>
   Ev_read 2048 512 5 \<in> set (drop (length (trace ex_b1)) (trace ex_f)) \<and>
   io_failure (Ev_read 2048 512 5) = Some (2048, 5) \<and>
   slvg_off ex_f = 2048 \<and> slvg_off ex_b1 \<le> 2048 \<and>
   (\<exists>pre. trace ex_f = trace ex_b1 @ pre @ [Ev_read 2048 512 5] \<and>
          list_all (\<lambda>ev. io_failure ev = None) pre)"
proof -
  have m: "Ev_read 2048 512 5 \<in>
      set (drop (length (trace ex_b1))
             (trace (blk \<lparr>ret = 5, eofp = False, addr = None, blk = ex_f\<rparr>)))"
    by (simp add: ex_b1_def ex_f_def)
  have f: "io_failure (Ev_read 2048 512 5) = Some (2048, 5)" by simp
  from next_io_failure [OF ex_fnext m f] m f ex_fnext show ?thesis
    by (simp add: list_all_iff)
qed

subsection \<open>A failed probe\<close>

lemma scan_first_event:
  assumes "salvage_scan e b offset = Some res"
  shows "\<exists>rest. trace (blk res) = trace b @ rest \<and>
           (rest = [] \<and> eofp res \<and> blk res = b \<or>
            (\<exists>r rest'. rest = Ev_read offset (allocsize b) r # rest'))"
  using assms
proof (induction rule: salvage_scan_induct)
  case (eof e b offset)
  then show ?case by simp
next
  case (read_fail e b offset)
  then show ?case by (simp add: wt_read_def Let_def)
next
  case (free_fail e b offset bs)
  from probe_garbage_frame [OF free_fail(3)] probe_garbage_trace [OF free_fail(3,2)]
  show ?case by (simp add: wt_block_free_def Let_def)
next
  case (skipped e b offset bs res)
  note fr = probe_garbage_frame [OF skipped(3)]
  from skipped.IH obtain rest where
    "trace (blk res) = trace (snd (skip e bs offset)) @ rest" by blast
  with fr probe_garbage_trace [OF skipped(3,2)] skipped(4) show ?case
    by (simp add: skip_ok)
next
  case (page e b offset)
  then show ?case by (simp add: probe_page_simps)
qed

lemma scan_freelist:
  assumes "salvage_scan e b offset = Some res"
  shows "\<exists>fl. freelist (blk res) = freelist b @ fl \<and>
           (\<forall>p\<in>set fl. offset \<le> fst p \<and> snd p = allocsize b)"
  using assms
proof (induction rule: salvage_scan_induct)
  case (eof e b offset)
  then show ?case by simp
next
  case (read_fail e b offset)
  then show ?case by (simp add: wt_read_def Let_def)
next
  case (free_fail e b offset bs)
  from probe_garbage_frame [OF free_fail(3)] free_fail(4)
  show ?case by (simp add: wt_block_free_def Let_def)
next
  case (skipped e b offset bs res)
  note fr = probe_garbage_frame [OF skipped(3)]
  have sk: "snd (skip e bs offset) =
     bs\<lparr>freelist := freelist bs @ [(offset, allocsize b)],
        trace := trace bs @ [Ev_block_free offset (allocsize b) 0],
        slvg_off := offset + uint (allocsize b)\<rparr>"
    using skip_ok [of e offset bs] skipped(4) fr by simp
  from skipped.IH obtain fl where fl:
    "freelist (blk res) = freelist b @ (offset, allocsize b) # fl"
    "\<forall>p\<in>set fl. offset + uint (allocsize b) \<le> fst p \<and> snd p = allocsize b"
    using fr by (auto simp: sk)
  have "offset \<le> fst p" if "p \<in> set fl" for p
  proof -
    from fl(2) that have "offset + uint (allocsize b) \<le> fst p" by blast
    with uint_ge_0 [of "allocsize b"] show ?thesis by linarith
  qed
  with fl show ?case
    by (intro exI [of _ "(offset, allocsize b) # fl"]) auto
next
  case (page e b offset)
  then show ?case by (simp add: probe_page_simps)
qed

lemma failed_probe_step:
  assumes "offset < file_size b"
      and "read_ret e offset (allocsize b) = 0"
      and "allocsize b \<noteq> 0"
      and "size_insane e b offset (dsk_size (read_mem e offset (allocsize b))) \<or>
           block_read_ret e offset (dsk_size (read_mem e offset (allocsize b)))
             (dsk_cksum (read_mem e offset (allocsize b))) \<noteq> 0"
      and "block_free_ret e offset (allocsize b) = 0"
  shows "\<exists>b'. salvage_scan e b offset = salvage_scan e b' (offset + uint (allocsize b)) \<and>
              slvg_off b' = offset + uint (allocsize b) \<and>
              freelist b' = freelist b @ [(offset, allocsize b)] \<and>
              trace b' = trace b @ Ev_read offset (allocsize b) 0 #
                (if size_insane e b offset (dsk_size (read_mem e offset (allocsize b))) then []
                 else [Ev_block_read offset (dsk_size (read_mem e offset (allocsize b)))
                    (dsk_cksum (read_mem e offset (allocsize b)))
                    (block_read_ret e offset (dsk_size (read_mem e offset (allocsize b)))
                    (dsk_cksum (read_mem e offset (allocsize b))))]) @
                [Ev_block_free offset (allocsize b) 0] \<and>
              file_size b' = file_size b \<and> allocsize b' = allocsize b"
proof -
  define dsk where "dsk = read_mem e offset (allocsize b)"
  define b1 where "b1 = snd (wt_read e b offset (allocsize b))"
  define bs where "bs = (if size_insane e b offset (dsk_size dsk) then b1
     else snd (wt_block_read e (lsn_update b1 dsk) offset (dsk_size dsk) (dsk_cksum dsk)))"
  have g: "probe_garbage e b offset bs"
    using assms(3,4) by (auto simp: probe_garbage_def Let_def bs_def b1_def dsk_def)
  note fr = probe_garbage_frame [OF g]
  note tr = probe_garbage_trace [OF g assms(2)]
  define b' where "b' = bs\<lparr>freelist := freelist bs @ [(offset, allocsize b)],
        trace := trace bs @ [Ev_block_free offset (allocsize b) 0],
        slvg_off := offset + uint (allocsize b)\<rparr>"
  have sk: "skip e bs offset = (0, b')"
    using assms(5) fr by (simp add: skip_def wt_block_free_def Let_def b'_def)
  have rd: "wt_read e b offset (allocsize b) = (0, b1)"
    using assms(2) by (simp add: wt_read_def b1_def Let_def)
  have "salvage_scan e b offset = salvage_scan e b' (offset + uint (allocsize b))"
  proof (cases "size_insane e b offset (dsk_size dsk)")
    case True
    then have "bs = b1" by (simp add: bs_def)
    with sk have "skip e b1 offset = (0, b')" by simp
    with True rd assms(1,3) show ?thesis
      by (subst salvage_scan.simps) (simp add: Let_def dsk_def)
  next
    case False
    with assms(4) have "block_read_ret e offset (dsk_size dsk) (dsk_cksum dsk) \<noteq> 0"
      by (simp add: dsk_def)
    moreover have "wt_block_read e (lsn_update b1 dsk) offset (dsk_size dsk) (dsk_cksum dsk) =
        (block_read_ret e offset (dsk_size dsk) (dsk_cksum dsk), bs)"
      using False by (simp add: bs_def wt_block_read_def Let_def)
    ultimately show ?thesis
      using False rd sk assms(1,3)
      by (subst salvage_scan.simps) (simp add: Let_def dsk_def)
  qed
  then show ?thesis
    using fr tr by (intro exI [of _ b']) (auto simp: b'_def)
qed

text \<open>
  C4. A probe at \<open>offset\<close> that fails, by an insane size or by a failed full read,
  and whose unit is freed without error: the scan returns, and between the header read
  at \<open>offset\<close> and the rest of the call it makes exactly the free of the one unit
  \<open>(offset, allocsize)\<close>, whatever size the header declares. The scan goes on at
  \<open>offset + allocsize\<close>: either it ends there with end of file and the cursor at
  \<open>offset + allocsize\<close>, or its next collaborator call is the header read at
  \<open>offset + allocsize\<close>. The cursor of the block handed back is at or past
  \<open>offset + allocsize\<close>, its free list is the old one, then \<open>(offset, allocsize)\<close>,
  then single units at or past \<open>offset + allocsize\<close>.
\<close>

theorem failed_probe_skips_one_unit:
  assumes "offset < file_size b"
      and "read_ret e offset (allocsize b) = 0"
      and "allocsize b \<noteq> 0"
      and "size_insane e b offset (dsk_size (read_mem e offset (allocsize b))) \<or>
           block_read_ret e offset (dsk_size (read_mem e offset (allocsize b)))
             (dsk_cksum (read_mem e offset (allocsize b))) \<noteq> 0"
      and "block_free_ret e offset (allocsize b) = 0"
  shows "\<exists>res rest fl.
           salvage_scan e b offset = Some res \<and>
           trace (blk res) =
             trace b @ Ev_read offset (allocsize b) 0 #
               (if size_insane e b offset (dsk_size (read_mem e offset (allocsize b))) then []
                else [Ev_block_read offset (dsk_size (read_mem e offset (allocsize b)))
                   (dsk_cksum (read_mem e offset (allocsize b)))
                   (block_read_ret e offset (dsk_size (read_mem e offset (allocsize b)))
                   (dsk_cksum (read_mem e offset (allocsize b))))]) @
               Ev_block_free offset (allocsize b) 0 # rest \<and>
           (rest = [] \<and> eofp res \<and> slvg_off (blk res) = offset + uint (allocsize b) \<or>
            (\<exists>r rest'. rest = Ev_read (offset + uint (allocsize b)) (allocsize b) r # rest')) \<and>
           offset + uint (allocsize b) \<le> slvg_off (blk res) \<and>
           freelist (blk res) = freelist b @ (offset, allocsize b) # fl \<and>
           (\<forall>p\<in>set fl. offset + uint (allocsize b) \<le> fst p \<and> snd p = allocsize b)"
proof -
  from failed_probe_step [OF assms] obtain b' where b':
    "salvage_scan e b offset = salvage_scan e b' (offset + uint (allocsize b))"
    "slvg_off b' = offset + uint (allocsize b)"
    "freelist b' = freelist b @ [(offset, allocsize b)]"
    "trace b' = trace b @ Ev_read offset (allocsize b) 0 #
                (if size_insane e b offset (dsk_size (read_mem e offset (allocsize b))) then []
                 else [Ev_block_read offset (dsk_size (read_mem e offset (allocsize b)))
                    (dsk_cksum (read_mem e offset (allocsize b)))
                    (block_read_ret e offset (dsk_size (read_mem e offset (allocsize b)))
                    (dsk_cksum (read_mem e offset (allocsize b))))]) @
                [Ev_block_free offset (allocsize b) 0]"
    "allocsize b' = allocsize b"
    by (elim exE conjE) (rule that)
  from assms(3) b'(5) have "allocsize b' \<noteq> 0" by simp
  from scan_returns [OF this] obtain res where
    res: "salvage_scan e b' (offset + uint (allocsize b)) = Some res"
    by blast
  from scan_first_event [OF res] obtain rest where rest:
    "trace (blk res) = trace b' @ rest"
    "rest = [] \<and> eofp res \<and> blk res = b' \<or>
       (\<exists>r rest'. rest = Ev_read (offset + uint (allocsize b)) (allocsize b) r # rest')"
    using b'(5) by auto
  from scan_freelist [OF res] obtain fl where fl:
    "freelist (blk res) = freelist b' @ fl"
    "\<forall>p\<in>set fl. offset + uint (allocsize b) \<le> fst p \<and> snd p = allocsize b"
    using b'(5) by auto
  from scan_io_failure [OF res b'(2)] have le: "offset + uint (allocsize b) \<le> slvg_off (blk res)"
    by blast
  from rest(2) b'(2) have
    "rest = [] \<and> eofp res \<and> slvg_off (blk res) = offset + uint (allocsize b) \<or>
       (\<exists>r rest'. rest = Ev_read (offset + uint (allocsize b)) (allocsize b) r # rest')"
    by auto
  with b'(1) res rest(1) b'(4) le fl b'(3) show ?thesis
    by (intro exI [of _ res] exI [of _ rest] exI [of _ fl]) simp
qed

theorem failed_probe_skips_one_unit_witness:
  "1536 < file_size ex_b1 \<and> read_ret ex_env 1536 (allocsize ex_b1) = 0 \<and>
   allocsize ex_b1 \<noteq> 0 \<and>
   block_read_ret ex_env 1536 (dsk_size (read_mem ex_env 1536 (allocsize ex_b1)))
     (dsk_cksum (read_mem ex_env 1536 (allocsize ex_b1))) \<noteq> 0 \<and>
   block_free_ret ex_env 1536 (allocsize ex_b1) = 0 \<and>
   salvage_scan ex_env ex_b1 1536 =
     Some \<lparr>ret = 0, eofp = False, addr = Some [4, 1, 22], blk = ex_b2\<rparr> \<and>
   (\<exists>rest fl.
      trace ex_b2 = trace ex_b1 @
        [Ev_read 1536 512 0, Ev_block_read 1536 512 0 1, Ev_block_free 1536 512 0] @ rest \<and>
      (\<exists>r rest'. rest = Ev_read 2048 512 r # rest') \<and>
      2048 \<le> slvg_off ex_b2 \<and>
      freelist ex_b2 = freelist ex_b1 @ (1536, 512) # fl \<and>
      list_all (\<lambda>p. 2048 \<le> fst p \<and> snd p = 512) fl)"
proof -
  have h: "1536 < file_size ex_b1" "read_ret ex_env 1536 (allocsize ex_b1) = 0"
    "allocsize ex_b1 \<noteq> 0"
    by (simp_all add: ex_b1_def ex_env_def)
  have br: "block_read_ret ex_env 1536 (dsk_size (read_mem ex_env 1536 (allocsize ex_b1)))
     (dsk_cksum (read_mem ex_env 1536 (allocsize ex_b1))) \<noteq> 0"
    by (simp add: ex_env_def)
  have fr: "block_free_ret ex_env 1536 (allocsize ex_b1) = 0"
    by (simp add: ex_env_def)
  have A: "allocsize ex_b1 = 512" by (simp add: ex_b1_def)
  have m: "read_mem ex_env 1536 512 = \<lparr>dsk_size = 512, dsk_cksum = 0, dsk_lsn = 99\<rparr>"
    "block_read_ret ex_env 1536 512 0 = 1"
    "\<not> size_insane ex_env ex_b1 1536 512"
    by (simp_all add: ex_env_def size_insane_def ex_b1_def)
  have "\<exists>res rest fl.
      salvage_scan ex_env ex_b1 1536 = Some res \<and>
      trace (blk res) =
        trace ex_b1 @ Ev_read 1536 512 0 # Ev_block_read 1536 512 0 1 #
          Ev_block_free 1536 512 0 # rest \<and>
      (rest = [] \<and> eofp res \<and> slvg_off (blk res) = 2048 \<or>
       (\<exists>r rest'. rest = Ev_read 2048 512 r # rest')) \<and>
      2048 \<le> slvg_off (blk res) \<and>
      freelist (blk res) = freelist ex_b1 @ (1536, 512) # fl \<and>
      (\<forall>p\<in>set fl. 2048 \<le> fst p \<and> snd p = 512)"
    using failed_probe_skips_one_unit [OF h disjI2 [OF br] fr] by (simp add: A m)
  then obtain res rest fl where
    1: "salvage_scan ex_env ex_b1 1536 = Some res"
    and 2: "trace (blk res) =
        trace ex_b1 @ Ev_read 1536 512 0 # Ev_block_read 1536 512 0 1 #
          Ev_block_free 1536 512 0 # rest"
    and 3: "rest = [] \<and> eofp res \<and> slvg_off (blk res) = 2048 \<or>
            (\<exists>r rest'. rest = Ev_read 2048 512 r # rest')"
    and 4: "2048 \<le> slvg_off (blk res)"
    and 5: "freelist (blk res) = freelist ex_b1 @ (1536, 512) # fl"
    and 6: "\<forall>p\<in>set fl. 2048 \<le> fst p \<and> snd p = 512"
    by (elim exE conjE) (rule that)
  from 1 ex_scan_1536 have res: "res = \<lparr>ret = 0, eofp = False, addr = Some [4, 1, 22], blk = ex_b2\<rparr>"
    by simp
  from 3 res have nx: "\<exists>r rest'. rest = Ev_read 2048 512 r # rest'" by simp
  from 2 nx 4 5 6 res have "\<exists>rest fl.
      trace ex_b2 = trace ex_b1 @
        [Ev_read 1536 512 0, Ev_block_read 1536 512 0 1, Ev_block_free 1536 512 0] @ rest \<and>
      (\<exists>r rest'. rest = Ev_read 2048 512 r # rest') \<and>
      2048 \<le> slvg_off ex_b2 \<and>
      freelist ex_b2 = freelist ex_b1 @ (1536, 512) # fl \<and>
      list_all (\<lambda>p. 2048 \<le> fst p \<and> snd p = 512) fl"
    by (intro exI [of _ rest] exI [of _ fl]) (simp add: list_all_iff)
  with h br fr ex_scan_1536 show ?thesis by blast
qed

subsection \<open>The largest LSN\<close>

lemma probed_lsns_simps [simp]:
  "probed_lsns e b [] = []"
  "probed_lsns e b (ev # evs) = probed_lsn e b ev @ probed_lsns e b evs"
  "probed_lsns e b (xs @ ys) = probed_lsns e b xs @ probed_lsns e b ys"
  by (simp_all add: probed_lsns_def)

lemma probed_lsn_cong:
  "allocsize b' = allocsize b \<Longrightarrow> file_size b' = file_size b \<Longrightarrow>
   probed_lsn e b' ev = probed_lsn e b ev"
  by (cases ev) (simp_all add: size_insane_def)

lemma probed_lsns_cong:
  "allocsize b' = allocsize b \<Longrightarrow> file_size b' = file_size b \<Longrightarrow>
   probed_lsns e b' evs = probed_lsns e b evs"
  by (simp add: probed_lsns_def probed_lsn_cong [of b' b] cong: map_cong)

lemma probe_garbage_lsn:
  assumes "probe_garbage e b offset bs"
  shows "lsn bs =
     (if size_insane e b offset (dsk_size (read_mem e offset (allocsize b))) then lsn b
      else max (lsn b) (dsk_lsn (read_mem e offset (allocsize b))))"
  using assms
  by (auto simp: probe_garbage_def Let_def wt_read_def wt_block_read_def lsn_update_def max_def
      split: if_splits)

lemma scan_lsn:
  assumes "salvage_scan e b offset = Some res"
  shows "\<exists>evs. trace (blk res) = trace b @ evs \<and>
           lsn (blk res) = fold max (probed_lsns e b evs) (lsn b)"
  using assms
proof (induction rule: salvage_scan_induct)
  case (eof e b offset)
  then show ?case by simp
next
  case (read_fail e b offset)
  then show ?case by (simp add: wt_read_def Let_def)
next
  case (free_fail e b offset bs)
  note fr = probe_garbage_frame [OF free_fail(3)]
  note tr = probe_garbage_trace [OF free_fail(3,2)]
  note ls = probe_garbage_lsn [OF free_fail(3)]
  from fr tr ls show ?case
    by (simp add: wt_block_free_def Let_def max.commute)
next
  case (skipped e b offset bs res)
  note fr = probe_garbage_frame [OF skipped(3)]
  note tr = probe_garbage_trace [OF skipped(3,2)]
  note ls = probe_garbage_lsn [OF skipped(3)]
  have sk: "snd (skip e bs offset) =
     bs\<lparr>freelist := freelist bs @ [(offset, allocsize b)],
        trace := trace bs @ [Ev_block_free offset (allocsize b) 0],
        slvg_off := offset + uint (allocsize b)\<rparr>"
    using skip_ok [of e offset bs] skipped(4) fr by simp
  have cg: "probed_lsns e (snd (skip e bs offset)) evs = probed_lsns e b evs" for evs
    by (rule probed_lsns_cong) (simp_all add: sk fr)
  have l: "lsn (snd (skip e bs offset)) = lsn bs"
    and t: "trace (snd (skip e bs offset)) = trace bs @ [Ev_block_free offset (allocsize b) 0]"
    by (simp_all add: sk)
  from skipped.IH obtain evs where a:
    "trace (blk res) = trace (snd (skip e bs offset)) @ evs"
    "lsn (blk res) =
       fold max (probed_lsns e (snd (skip e bs offset)) evs) (lsn (snd (skip e bs offset)))"
    by blast
  from a(2) have "lsn (blk res) = fold max (probed_lsns e b evs) (lsn bs)"
    by (simp only: cg l)
  moreover from a(1) have "trace (blk res) = trace bs @ Ev_block_free offset (allocsize b) 0 # evs"
    by (simp add: t)
  ultimately show ?case
    using tr ls by (auto simp: max.commute)
next
  case (page e b offset)
  then show ?case
    by (simp add: probe_page_simps max.commute)
qed

lemma calls_lsn:
  assumes "salvage_calls e n b = Some (rs, b')"
  shows "\<exists>evs. trace b' = trace b @ evs \<and> file_size b' = file_size b \<and>
           allocsize b' = allocsize b \<and>
           lsn b' = fold max (probed_lsns e b evs) (lsn b)"
  using assms
proof (induction n arbitrary: b rs)
  case 0
  then show ?case by simp
next
  case (Suc n)
  from Suc.prems obtain r rs' where r: "wt_block_salvage_next e b = Some r"
    and rs': "salvage_calls e n (blk r) = Some (rs', b')"
    by (auto split: option.splits)
  have "\<exists>evs. trace (blk r) = trace b @ evs \<and> file_size (blk r) = file_size b \<and>
           allocsize (blk r) = allocsize b \<and>
           lsn (blk r) = fold max (probed_lsns e b evs) (lsn b)"
  proof (cases "buf_initsize_ret e (allocsize b) = 0")
    case True
    with r have s: "salvage_scan e b (slvg_off b) = Some r"
      by (simp add: wt_block_salvage_next_def)
    from scan_lsn [OF s] scan_frame [OF s] show ?thesis by auto
  next
    case False
    with r show ?thesis by (auto simp: wt_block_salvage_next_def)
  qed
  then obtain evs1 where 1: "trace (blk r) = trace b @ evs1" "file_size (blk r) = file_size b"
    "allocsize (blk r) = allocsize b" "lsn (blk r) = fold max (probed_lsns e b evs1) (lsn b)"
    by blast
  from Suc.IH [OF rs'] obtain evs2 where 2: "trace b' = trace (blk r) @ evs2"
    "file_size b' = file_size (blk r)" "allocsize b' = allocsize (blk r)"
    "lsn b' = fold max (probed_lsns e (blk r) evs2) (lsn (blk r))"
    by blast
  have "probed_lsns e (blk r) evs2 = probed_lsns e b evs2"
    using 1(3,2) by (rule probed_lsns_cong)
  with 1 2 show ?case
    by (intro exI [of _ "evs1 @ evs2"]) simp
qed

lemma start_lsn:
  assumes "wt_block_salvage_start e b = Some (r, b0)"
  shows "lsn b0 = lsn b"
  using assms
  by (auto simp: wt_block_salvage_start_def salvage_start_tail_def wt_desc_init_def
      wt_ftruncate_def Let_def split: if_splits option.splits)

text \<open>
  C2, amended. After a successful start and any number of calls of
  \<^verbatim>\<open>__wt_block_salvage_next\<close>, the LSN of the block is the maximum of its value before
  the pass and the LSNs of all headers that were read and passed the size test of lines
  107 to 110, those whose full read then failed included (lines 126 and 127 come before
  the full read); it is the value before the pass if no header passed the test.
\<close>

theorem salvage_pass_lsn:
  assumes "wt_block_salvage_start e b = Some (0, b0)"
      and "salvage_calls e n b0 = Some (rs, b')"
  shows "lsn b' = Max (set (lsn b # probed_lsns e b0 (drop (length (trace b0)) (trace b')))) \<and>
         (probed_lsns e b0 (drop (length (trace b0)) (trace b')) = [] \<longrightarrow> lsn b' = lsn b)"
proof -
  from calls_lsn [OF assms(2)] obtain evs where
    "trace b' = trace b0 @ evs" "lsn b' = fold max (probed_lsns e b0 evs) (lsn b0)"
    by blast
  with start_lsn [OF assms(1)]
    Max.set_eq_fold [of "lsn b" "probed_lsns e b0 evs"] show ?thesis
    by simp
qed

text \<open>
  C2, as stated, fails: on the example file the pages returned have LSN 7 and 12, the
  block had LSN 3 before the pass, and after the pass that ends with end of file its LSN
  is 99, the LSN in the header of the unit at 1536 whose full read failed.
\<close>

theorem salvage_pass_lsn_counterexample:
  "wt_block_salvage_start ex_env ex_block = Some (0, ex_b0) \<and>
   salvage_calls ex_env 3 ex_b0 =
     Some ([\<lparr>ret = 0, eofp = False, addr = Some [1, 2, 11], blk = ex_b1\<rparr>,
            \<lparr>ret = 0, eofp = False, addr = Some [4, 1, 22], blk = ex_b2\<rparr>,
            \<lparr>ret = 0, eofp = True, addr = None, blk = ex_b2\<rparr>], ex_b2) \<and>
   returned_lsns ex_env ex_b0 (drop (length (trace ex_b0)) (trace ex_b2)) = [7, 12] \<and>
   lsn ex_block = 3 \<and> lsn ex_b2 = 99"
  using ex_start ex_calls
  by (simp add: returned_lsns_def ex_b0_def ex_b2_def ex_block_def ex_env_def)

theorem salvage_pass_lsn_witness:
  "wt_block_salvage_start ex_env ex_block = Some (0, ex_b0) \<and>
   salvage_calls ex_env 3 ex_b0 =
     Some ([\<lparr>ret = 0, eofp = False, addr = Some [1, 2, 11], blk = ex_b1\<rparr>,
            \<lparr>ret = 0, eofp = False, addr = Some [4, 1, 22], blk = ex_b2\<rparr>,
            \<lparr>ret = 0, eofp = True, addr = None, blk = ex_b2\<rparr>], ex_b2) \<and>
   probed_lsns ex_env ex_b0 (drop (length (trace ex_b0)) (trace ex_b2)) = [7, 99, 12] \<and>
   lsn ex_b2 = Max (set [3, 7, 99, 12])"
proof -
  have p: "probed_lsns ex_env ex_b0 (drop (length (trace ex_b0)) (trace ex_b2)) = [7, 99, 12]"
    by (simp add: ex_b0_def ex_b2_def ex_env_def size_insane_def)
  have "lsn ex_b2 = Max (set (lsn ex_block #
          probed_lsns ex_env ex_b0 (drop (length (trace ex_b0)) (trace ex_b2))))"
    using salvage_pass_lsn [OF ex_start ex_calls] by blast
  then have "lsn ex_b2 = Max (set [3, 7, 99, 12])"
    by (simp only: p) (simp add: ex_block_def)
  with ex_start ex_calls p show ?thesis by simp
qed

subsection \<open>Salvage end\<close>

text \<open>
  C8. \<^verbatim>\<open>__wt_block_salvage_end\<close> with \<open>success = 0\<close> clears the \<^verbatim>\<open>WT_BLOCK_OK\<close> bits of the
  flags and leaves an empty free-space state, whatever the block was; with a non-zero
  \<open>success\<close> it returns the block as it was.
\<close>

theorem salvage_end_clears:
  "wt_block_salvage_end e b 0 =
      (0, b\<lparr>flags := flags b AND NOT (WT_BLOCK_OK e), freelist := []\<rparr>) \<and>
   flags (snd (wt_block_salvage_end e b 0)) AND WT_BLOCK_OK e = 0 \<and>
   freelist (snd (wt_block_salvage_end e b 0)) = [] \<and>
   (success \<noteq> 0 \<longrightarrow> wt_block_salvage_end e b success = (0, b))"
  by (simp add: wt_block_salvage_end_def wt_block_discard_def and.assoc)

theorem salvage_end_clears_witness:
  "flags ex_b0 AND WT_BLOCK_OK ex_env \<noteq> 0 \<and>
   flags (snd (wt_block_salvage_end ex_env ex_b0 0)) AND WT_BLOCK_OK ex_env = 0 \<and>
   (1::int) \<noteq> 0 \<and> wt_block_salvage_end ex_env ex_b0 1 = (0, ex_b0)"
  using salvage_end_clears [of ex_env ex_b0 1]
  by (simp add: ex_env_def ex_b0_def)

end
